theory Spec2Isabelle
  imports Main "HOL-Library.Char_ord" "HOL-Library.List_Lexorder"
begin

section \<open>Platform builtins used by the service worker\<close>

text \<open>
  The service worker (\<^verbatim>\<open>sw.ts\<close>) calls two synchronous builtins of the JavaScript
  platform: the \<^verbatim>\<open>URL\<close> constructor and the \<^verbatim>\<open>RegExp\<close> constructor with its
  \<^verbatim>\<open>test\<close> method. Neither is code of the repository, so every function of the
  embedding takes them as a parameter, the record \<open>platform\<close>. A constructor that
  throws is the value \<open>None\<close>. The general theorems hold for every platform; the
  concrete platform \<open>browser\<close> further down is used only at explicit inputs.
\<close>

record URL =
  protocol :: string
  host :: string

record 'r platform =
  URL_new :: "string \<Rightarrow> URL option"
  RegExp_new :: "string \<Rightarrow> 'r option"
  RegExp_test :: "'r \<Rightarrow> string \<Rightarrow> bool"

section \<open>URL policy\<close>

definition bslash :: char where
  "bslash = CHR 0x5C"

text \<open>\<^verbatim>\<open>isHttpUrl\<close>: the \<^verbatim>\<open>catch\<close> branch returns false.\<close>

definition isHttpUrl :: "'r platform \<Rightarrow> string \<Rightarrow> bool" where
  "isHttpUrl P url =
     (case URL_new P url of
        None \<Rightarrow> False
      | Some u \<Rightarrow> protocol u = ''http:'' \<or> protocol u = ''https:'')"

text \<open>\<^verbatim>\<open>hostOf\<close>: the \<^verbatim>\<open>catch\<close> branch returns the empty string.\<close>

definition hostOf :: "'r platform \<Rightarrow> string \<Rightarrow> string" where
  "hostOf P url = (case URL_new P url of None \<Rightarrow> [] | Some u \<Rightarrow> host u)"

definition toUrlKey :: "string \<Rightarrow> string" where
  "toUrlKey url = url"

text \<open>
  \<^verbatim>\<open>pattern.replace(/[.+?^${}()|[\]\\]/g, "\\$&")\<close>: every character of the class is
  prefixed with a backslash. The class holds thirteen characters; the star is not one
  of them.
\<close>

definition escapedChars :: string where
  "escapedChars = ''.+?^${}()|[]'' @ [bslash]"

fun escapeRegExp :: "string \<Rightarrow> string" where
  "escapeRegExp [] = []"
| "escapeRegExp (c # cs) =
     (if c \<in> set escapedChars then bslash # c # escapeRegExp cs else c # escapeRegExp cs)"

text \<open>
  \<^verbatim>\<open>escaped.replace(/\\\*/g, ".*")\<close>: every occurrence, from left to right and without
  overlap, of the two characters backslash and star is replaced by dot and star.
\<close>

fun replaceEscapedStar :: "string \<Rightarrow> string" where
  "replaceEscapedStar (a # b # cs) =
     (if a = bslash \<and> b = CHR ''*'' then CHR ''.'' # CHR ''*'' # replaceEscapedStar cs
      else a # replaceEscapedStar (b # cs))"
| "replaceEscapedStar cs = cs"

definition regexStr :: "string \<Rightarrow> string" where
  "regexStr pattern = ''^'' @ replaceEscapedStar (escapeRegExp pattern) @ ''$''"

text \<open>\<^verbatim>\<open>wildcardToRegExp\<close>; \<open>None\<close> is the SyntaxError of \<^verbatim>\<open>new RegExp\<close>.\<close>

definition wildcardToRegExp :: "'r platform \<Rightarrow> string \<Rightarrow> 'r option" where
  "wildcardToRegExp P pattern = RegExp_new P (regexStr pattern)"

text \<open>
  \<^verbatim>\<open>urlMatchesPatterns\<close>: the loop over the patterns is the recursion over the list; the
  \<^verbatim>\<open>try\<close>/\<^verbatim>\<open>catch\<close> inside the loop body is the case distinction on the compiled
  pattern, whose \<open>None\<close> branch goes on with the next pattern.
\<close>

fun urlMatchesPatterns :: "'r platform \<Rightarrow> string \<Rightarrow> string list \<Rightarrow> bool" where
  "urlMatchesPatterns P url [] = False"
| "urlMatchesPatterns P url (p # ps) =
     (case wildcardToRegExp P p of
        Some r \<Rightarrow> if RegExp_test P r url then True else urlMatchesPatterns P url ps
      | None \<Rightarrow> urlMatchesPatterns P url ps)"

record Settings =
  enabled :: bool
  minStayMs :: int
  disabledHosts :: "string list"
  disabledUrlPatterns :: "string list"

text \<open>
  The object kept under \<^verbatim>\<open>pw_settings\<close> in \<^verbatim>\<open>chrome.storage.local\<close>: each field may
  be missing, and \<^verbatim>\<open>getSettings\<close> fills in the defaults with \<^verbatim>\<open>??\<close>. A missing
  object is \<^verbatim>\<open>{}\<close>.
\<close>

record StoredSettings =
  s_enabled :: "bool option"
  s_minStayMs :: "int option"
  s_disabledHosts :: "string list option"
  s_disabledUrlPatterns :: "string list option"

definition emptyStored :: StoredSettings where
  "emptyStored = \<lparr>s_enabled = None, s_minStayMs = None, s_disabledHosts = None,
     s_disabledUrlPatterns = None\<rparr>"

definition normalize :: "StoredSettings option \<Rightarrow> Settings" where
  "normalize obj =
     (let s = (case obj of None \<Rightarrow> emptyStored | Some x \<Rightarrow> x)
      in \<lparr>enabled = (case s_enabled s of None \<Rightarrow> True | Some b \<Rightarrow> b),
          minStayMs = (case s_minStayMs s of None \<Rightarrow> 2000 | Some n \<Rightarrow> n),
          disabledHosts = (case s_disabledHosts s of None \<Rightarrow> [] | Some hs \<Rightarrow> hs),
          disabledUrlPatterns = (case s_disabledUrlPatterns s of None \<Rightarrow> [] | Some ps \<Rightarrow> ps)\<rparr>)"

definition toStored :: "Settings \<Rightarrow> StoredSettings" where
  "toStored s = \<lparr>s_enabled = Some (enabled s), s_minStayMs = Some (minStayMs s),
     s_disabledHosts = Some (disabledHosts s),
     s_disabledUrlPatterns = Some (disabledUrlPatterns s)\<rparr>"

text \<open>
  The body of \<^verbatim>\<open>shouldArchiveUrl\<close> after its \<^verbatim>\<open>await getSettings()\<close>; the settings
  read are the argument. \<^verbatim>\<open>host && ...\<close> and \<^verbatim>\<open>patterns.length && ...\<close> are the
  truthiness tests of a string and of a number.
\<close>

definition shouldArchive :: "'r platform \<Rightarrow> Settings \<Rightarrow> string \<Rightarrow> bool" where
  "shouldArchive P settings url =
     (if \<not> isHttpUrl P url then False
      else if \<not> enabled settings then False
      else if hostOf P url \<noteq> [] \<and> hostOf P url \<in> set (disabledHosts settings) then False
      else if length (disabledUrlPatterns settings) \<noteq> 0
              \<and> urlMatchesPatterns P url (disabledUrlPatterns settings) then False
      else True)"

section \<open>A model of the browser's builtins\<close>

text \<open>
  \<open>browser\<close> models the two builtins on the inputs the development evaluates.

  The regular expressions are those of ECMAScript without flags, on the pattern
  strings \<^verbatim>\<open>wildcardToRegExp\<close> can build: ordinary characters, a backslash before a
  syntax character, the dot, the star after an atom, and the two anchors. A star with
  no atom before it (after an anchor, after another star, or first) is the SyntaxError
  "nothing to repeat". Any other construct is reported as \<open>Unsupported\<close>.
\<close>

datatype rx_atom = Lit char | AnyChar

datatype rx_term = AssertStart | AssertEnd | Atom rx_atom | Star rx_atom

datatype rx_result = SyntaxError | Unsupported | Compiled "rx_term list"

definition syntaxChars :: string where
  "syntaxChars = ''^$.*+?()[]{}|/'' @ [bslash]"

definition groupingChars :: string where
  "groupingChars = ''+?()[]{}|''"

fun rx_parse :: "string \<Rightarrow> rx_term list \<Rightarrow> rx_result" where
  "rx_parse [] acc = Compiled (rev acc)"
| "rx_parse (c # cs) acc =
     (if c = bslash then
        (case cs of
           [] \<Rightarrow> SyntaxError
         | d # ds \<Rightarrow> if d \<in> set syntaxChars then rx_parse ds (Atom (Lit d) # acc)
                     else Unsupported)
      else if c = CHR ''*'' then
        (case acc of
           Atom a # rest \<Rightarrow> rx_parse cs (Star a # rest)
         | _ \<Rightarrow> SyntaxError)
      else if c = CHR ''^'' then rx_parse cs (AssertStart # acc)
      else if c = CHR ''$'' then rx_parse cs (AssertEnd # acc)
      else if c = CHR ''.'' then rx_parse cs (Atom AnyChar # acc)
      else if c \<in> set groupingChars then Unsupported
      else rx_parse cs (Atom (Lit c) # acc))"

text \<open>
  The pattern strings the model covers: every backslash is followed by a syntax
  character, and no grouping character stands unescaped.
\<close>

fun inFragment :: "string \<Rightarrow> bool" where
  "inFragment [] = True"
| "inFragment (c # cs) =
     (if c = bslash then (case cs of [] \<Rightarrow> False | d # ds \<Rightarrow> d \<in> set syntaxChars \<and> inFragment ds)
      else c \<notin> set groupingChars \<and> inFragment cs)"

fun atomMatches :: "rx_atom \<Rightarrow> char \<Rightarrow> bool" where
  "atomMatches (Lit d) c = (c = d)"
| "atomMatches AnyChar c = (c \<noteq> CHR 0x0A \<and> c \<noteq> CHR 0x0D)"

text \<open>
  \<open>matchHere ts s atStart\<close>: the terms \<open>ts\<close> match a prefix of \<open>s\<close>; \<open>atStart\<close> says
  that \<open>s\<close> is the whole input. Backtracking over a star is the disjunction.
\<close>

fun matchHere :: "rx_term list \<Rightarrow> string \<Rightarrow> bool \<Rightarrow> bool" where
  "matchHere [] s atStart = True"
| "matchHere (AssertStart # ts) s atStart = (atStart \<and> matchHere ts s atStart)"
| "matchHere (AssertEnd # ts) s atStart = (s = [] \<and> matchHere ts s atStart)"
| "matchHere (Atom a # ts) [] atStart = False"
| "matchHere (Atom a # ts) (c # cs) atStart = (atomMatches a c \<and> matchHere ts cs False)"
| "matchHere (Star a # ts) [] atStart = matchHere ts [] atStart"
| "matchHere (Star a # ts) (c # cs) atStart =
     (matchHere ts (c # cs) atStart \<or> (atomMatches a c \<and> matchHere (Star a # ts) cs False))"

text \<open>\<^verbatim>\<open>test\<close> looks for a match starting at any position of the input.\<close>

fun matchFrom :: "rx_term list \<Rightarrow> string \<Rightarrow> bool \<Rightarrow> bool" where
  "matchFrom ts [] atStart = matchHere ts [] atStart"
| "matchFrom ts (c # cs) atStart = (matchHere ts (c # cs) atStart \<or> matchFrom ts cs False)"

definition rx_test :: "rx_term list \<Rightarrow> string \<Rightarrow> bool" where
  "rx_test ts s = matchFrom ts s True"

definition rx_new :: "string \<Rightarrow> rx_term list option" where
  "rx_new s = (case rx_parse s [] of Compiled ts \<Rightarrow> Some ts | _ \<Rightarrow> None)"

text \<open>
  The URL constructor, without a base URL, on absolute URLs written in ASCII without
  white space, credentials or port: the scheme is a letter followed by letters,
  digits, \<^verbatim>\<open>+\<close>, \<^verbatim>\<open>-\<close> or \<^verbatim>\<open>.\<close>, up to the first colon, in lower case; a string
  with no such scheme does not parse. For the special schemes the host is what follows
  the slashes, up to the next slash, question mark or hash, in lower case, and an
  empty host does not parse. For any other scheme the host is the authority after
  \<^verbatim>\<open>//\<close>, if there is one.
\<close>

definition upperChars :: string where
  "upperChars = ''ABCDEFGHIJKLMNOPQRSTUVWXYZ''"

definition lowerChars :: string where
  "lowerChars = ''abcdefghijklmnopqrstuvwxyz''"

definition toLower :: "char \<Rightarrow> char" where
  "toLower c = (case map_of (zip upperChars lowerChars) c of None \<Rightarrow> c | Some l \<Rightarrow> l)"

definition isSchemeChar :: "char \<Rightarrow> bool" where
  "isSchemeChar c = (c \<in> set (upperChars @ lowerChars @ ''0123456789+-.''))"

definition parseScheme :: "string \<Rightarrow> (string \<times> string) option" where
  "parseScheme s =
     (case s of
        [] \<Rightarrow> None
      | c # cs \<Rightarrow>
          if c \<in> set (upperChars @ lowerChars) then
            (case dropWhile isSchemeChar cs of
               [] \<Rightarrow> None
             | d # rest \<Rightarrow> if d = CHR '':'' then Some (map toLower (c # takeWhile isSchemeChar cs), rest)
                           else None)
          else None)"

definition isAuthorityEnd :: "char \<Rightarrow> bool" where
  "isAuthorityEnd c = (c = CHR ''/'' \<or> c = bslash \<or> c = CHR ''?'' \<or> c = CHR ''#'')"

definition url_new :: "string \<Rightarrow> URL option" where
  "url_new s =
     (case parseScheme s of
        None \<Rightarrow> None
      | Some (scheme, rest) \<Rightarrow>
          if scheme \<in> set [''http'', ''https'', ''ws'', ''wss'', ''ftp''] then
            (let h = takeWhile (\<lambda>c. \<not> isAuthorityEnd c)
                       (dropWhile (\<lambda>c. c = CHR ''/'' \<or> c = bslash) rest)
             in if h = [] then None
                else Some \<lparr>protocol = scheme @ '':'', host = map toLower h\<rparr>)
          else
            (case rest of
               a # b # auth \<Rightarrow>
                 if a = CHR ''/'' \<and> b = CHR ''/'' then
                   Some \<lparr>protocol = scheme @ '':'',
                         host = takeWhile (\<lambda>c. \<not> (c = CHR ''/'' \<or> c = CHR ''?'' \<or> c = CHR ''#'')) auth\<rparr>
                 else Some \<lparr>protocol = scheme @ '':'', host = []\<rparr>
             | _ \<Rightarrow> Some \<lparr>protocol = scheme @ '':'', host = []\<rparr>))"

definition browser :: "rx_term list platform" where
  "browser = \<lparr>URL_new = url_new, RegExp_new = rx_new, RegExp_test = rx_test\<rparr>"

section \<open>The archive store (\<^verbatim>\<open>db.ts\<close>)\<close>

record PageVersion =
  versionId :: string
  pv_url :: string
  pv_urlKey :: string
  title :: string
  capturedAt :: int
  hash :: string
  contentType :: string
  html :: string

record Visit =
  visitId :: string
  v_url :: string
  v_urlKey :: string
  visitAt :: int
  transitionType :: string
  v_tabId :: int

text \<open>
  An IndexedDB object store with a key path holds at most one record per key, in key
  order: it is the list of its records in that order. \<^verbatim>\<open>put\<close> replaces the record
  with the same key, or adds the record.
\<close>

definition deleteByKey :: "('a \<Rightarrow> string) \<Rightarrow> string \<Rightarrow> 'a list \<Rightarrow> 'a list" where
  "deleteByKey key k store = filter (\<lambda>r. key r \<noteq> k) store"

definition putRecord :: "('a \<Rightarrow> string) \<Rightarrow> 'a \<Rightarrow> 'a list \<Rightarrow> 'a list" where
  "putRecord key r store = insort_key key r (deleteByKey key (key r) store)"

definition putPageVersion :: "PageVersion \<Rightarrow> PageVersion list \<Rightarrow> PageVersion list" where
  "putPageVersion version store = putRecord versionId version store"

text \<open>
  \<^verbatim>\<open>getVersionsByUrlKey\<close>: \<^verbatim>\<open>getAll\<close> on the index \<^verbatim>\<open>by_urlKey\<close> gives the records of
  that key in the order of the store; the comparator \<^verbatim>\<open>b.capturedAt - a.capturedAt\<close>
  sorts them by descending \<^verbatim>\<open>capturedAt\<close>, and the sort is stable.
\<close>

definition getVersionsByUrlKey :: "string \<Rightarrow> PageVersion list \<Rightarrow> PageVersion list" where
  "getVersionsByUrlKey k store =
     sort_key (\<lambda>v. - capturedAt v) (filter (\<lambda>v. pv_urlKey v = k) store)"

definition putVisit :: "Visit \<Rightarrow> Visit list \<Rightarrow> Visit list" where
  "putVisit visit store = putRecord visitId visit store"

text \<open>
  \<^verbatim>\<open>purgeVisitsOlderThan\<close>: the cursor runs over the index \<^verbatim>\<open>by_visitAt\<close> in the range
  \<^verbatim>\<open>IDBKeyRange.upperBound(cutoffMs, true)\<close>, whose upper bound is open, and each
  \<^verbatim>\<open>onsuccess\<close> deletes the record under the cursor and continues.
\<close>

definition indexRange_by_visitAt :: "int \<Rightarrow> Visit list \<Rightarrow> Visit list" where
  "indexRange_by_visitAt cutoffMs store =
     sort_key visitAt (filter (\<lambda>v. visitAt v < cutoffMs) store)"

fun cursorDeleteAll :: "Visit list \<Rightarrow> Visit list \<Rightarrow> Visit list" where
  "cursorDeleteAll [] store = store"
| "cursorDeleteAll (r # rs) store = cursorDeleteAll rs (deleteByKey visitId (visitId r) store)"

definition purgeVisitsOlderThan :: "int \<Rightarrow> Visit list \<Rightarrow> Visit list" where
  "purgeVisitsOlderThan cutoffMs store =
     cursorDeleteAll (indexRange_by_visitAt cutoffMs store) store"

section \<open>The state of the service worker\<close>

record NavState =
  nav_url :: string
  completedAt :: int
  errored :: bool
  timerId :: nat

text \<open>
  A pending timer is the closure given to \<^verbatim>\<open>setTimeout\<close>: the tab and the URL the
  callback has captured, and the delay.
\<close>

record TimerTask =
  task_tabId :: int
  task_url :: string
  task_delay :: int

text \<open>The calls the worker makes to the archive store, the tab and the timers, in order.\<close>

datatype event =
    CallPutVisit Visit
  | CallPurgeVisits int
  | CallExecuteScript int
  | CallSendMessage int
  | CallGetVersions string
  | CallPutPageVersion PageVersion
  | CallSetTimeout nat
  | CallClearTimeout nat

text \<open>
  \<open>world\<close> is everything the handlers read and write: the two maps of the module,
  the timers of the platform (\<open>timerSeq\<close> is the last handle given out; handles are
  positive), the settings object in \<^verbatim>\<open>chrome.storage.local\<close>, the two object stores
  and the log of calls.
\<close>

record world =
  navByTab :: "int \<rightharpoonup> NavState"
  erroredTabUrl :: "int \<rightharpoonup> string"
  timers :: "nat \<rightharpoonup> TimerTask"
  timerSeq :: nat
  settingsStore :: "StoredSettings option"
  pages :: "PageVersion list"
  visits :: "Visit list"
  calls :: "event list"

definition DAYS_30_MS :: int where
  "DAYS_30_MS = 30 * 24 * 60 * 60 * 1000"

definition getSettings :: "world \<Rightarrow> Settings" where
  "getSettings w = normalize (settingsStore w)"

definition setSettings :: "Settings \<Rightarrow> world \<Rightarrow> world" where
  "setSettings next w = w\<lparr>settingsStore := Some (toStored next)\<rparr>"

definition shouldArchiveUrl :: "'r platform \<Rightarrow> string \<Rightarrow> world \<Rightarrow> bool" where
  "shouldArchiveUrl P url w = shouldArchive P (getSettings w) url"

definition logCall :: "event \<Rightarrow> world \<Rightarrow> world" where
  "logCall e w = w\<lparr>calls := calls w @ [e]\<rparr>"

text \<open>
  The three write transactions of \<^verbatim>\<open>db.ts\<close> when they complete: each is opened on one
  object store and changes that store only.
\<close>

definition tx_putVisit :: "Visit \<Rightarrow> world \<Rightarrow> world" where
  "tx_putVisit visit w = w\<lparr>visits := putVisit visit (visits w)\<rparr>"

definition tx_purgeVisitsOlderThan :: "int \<Rightarrow> world \<Rightarrow> world" where
  "tx_purgeVisitsOlderThan cutoffMs w = w\<lparr>visits := purgeVisitsOlderThan cutoffMs (visits w)\<rparr>"

definition tx_putPageVersion :: "PageVersion \<Rightarrow> world \<Rightarrow> world" where
  "tx_putPageVersion version w = w\<lparr>pages := putPageVersion version (pages w)\<rparr>"

section \<open>Bounce and error tracking\<close>

definition clearTimeout :: "nat \<Rightarrow> world \<Rightarrow> world" where
  "clearTimeout tid w = logCall (CallClearTimeout tid) (w\<lparr>timers := (timers w)(tid := None)\<rparr>)"

text \<open>\<^verbatim>\<open>clearTabState\<close>; \<^verbatim>\<open>st?.timerId\<close> is true for a state with a non-zero handle.\<close>

definition clearTabState :: "int \<Rightarrow> world \<Rightarrow> world" where
  "clearTabState tabId w =
     (let w1 = (case navByTab w tabId of
                  None \<Rightarrow> w
                | Some st \<Rightarrow> if timerId st \<noteq> 0 then clearTimeout (timerId st) w else w)
      in w1\<lparr>navByTab := (navByTab w1)(tabId := None),
             erroredTabUrl := (erroredTabUrl w1)(tabId := None)\<rparr>)"

record Details =
  frameId :: int
  d_tabId :: int
  d_url :: string

definition onCommitted :: "'r platform \<Rightarrow> Details \<Rightarrow> world \<Rightarrow> world" where
  "onCommitted P details w =
     (if frameId details \<noteq> 0 then w
      else if \<not> isHttpUrl P (d_url details) then w
      else clearTabState (d_tabId details) w)"

definition onErrorOccurred :: "Details \<Rightarrow> world \<Rightarrow> world" where
  "onErrorOccurred details w =
     (if frameId details \<noteq> 0 then w
      else w\<lparr>erroredTabUrl := (erroredTabUrl w)(d_tabId details \<mapsto> d_url details)\<rparr>)"

definition setTimeout :: "TimerTask \<Rightarrow> world \<Rightarrow> nat \<times> world" where
  "setTimeout task w =
     (let tid = Suc (timerSeq w)
      in (tid, logCall (CallSetTimeout tid) (w\<lparr>timers := (timers w)(tid \<mapsto> task), timerSeq := tid\<rparr>)))"

text \<open>
  \<^verbatim>\<open>onCompleted\<close> up to the point where the timer is scheduled; \<open>now\<close> is the value of
  \<^verbatim>\<open>Date.now()\<close>. The settings it reads are normalized, so the second default
  \<^verbatim>\<open>settings.minStayMs ?? 2000\<close> changes nothing. The callback of the timer is
  \<open>archiveTimer\<close> below.
\<close>

definition onCompleted :: "'r platform \<Rightarrow> int \<Rightarrow> Details \<Rightarrow> world \<Rightarrow> world" where
  "onCompleted P now details w =
     (if frameId details \<noteq> 0 then w
      else if \<not> isHttpUrl P (d_url details) then w
      else
        (let tabId = d_tabId details; url = d_url details;
             settings = getSettings w; delay = minStayMs settings
         in if erroredTabUrl w tabId = Some url then clearTabState tabId w
            else if \<not> shouldArchiveUrl P url w then clearTabState tabId w
            else
              (let (tid, w1) = setTimeout \<lparr>task_tabId = tabId, task_url = url, task_delay = delay\<rparr> w
               in w1\<lparr>navByTab := (navByTab w1)(tabId \<mapsto>
                      \<lparr>nav_url = url, completedAt = now, errored = False, timerId = tid\<rparr>)\<rparr>)))"

definition onRemoved :: "int \<Rightarrow> world \<Rightarrow> world" where
  "onRemoved tabId w = clearTabState tabId w"

section \<open>The callback of the dwell timer\<close>

text \<open>
  What the awaited calls of one run of the callback answer. A call that can reject
  has its outcome here: \<^verbatim>\<open>chrome.tabs.get\<close>, the three transactions of \<^verbatim>\<open>db.ts\<close>
  that the source rejects on \<^verbatim>\<open>onerror\<close> and \<^verbatim>\<open>onabort\<close>, the request of
  \<^verbatim>\<open>getVersionsByUrlKey\<close>, the script injection and the message to the content script.
  \<^verbatim>\<open>chrome.storage.local\<close> is the field \<open>settingsStore\<close> of the world and answers
  always, and \<^verbatim>\<open>crypto.subtle.digest\<close> always resolves, to the bytes
  \<open>subtle_digest\<close> gives for the text. The identifiers of \<^verbatim>\<open>crypto.randomUUID()\<close> and
  the values of \<^verbatim>\<open>Date.now()\<close> are answers as well.
\<close>

record Tab =
  tab_url :: "string option"

record SnapshotResponse =
  ok :: bool
  r_title :: "string option"
  r_html :: "string option"
  r_error :: "string option"

record Snapshot =
  snap_title :: string
  snap_html :: string

record answers =
  tabs_get :: "string + Tab"
  visit_uuid :: string
  visit_now :: int
  putVisit_ok :: bool
  purge_now :: int
  purge_ok :: bool
  executeScript_ok :: bool
  sendMessage :: "string + SnapshotResponse option"
  subtle_digest :: "string \<Rightarrow> nat list"
  getVersions_ok :: bool
  version_uuid :: string
  version_now :: int
  putPageVersion_ok :: bool

text \<open>The object literal that \<^verbatim>\<open>logVisit\<close> builds.\<close>

definition newVisit :: "answers \<Rightarrow> int \<Rightarrow> string \<Rightarrow> string \<Rightarrow> Visit" where
  "newVisit env tabId url urlKey =
     \<lparr>visitId = visit_uuid env, v_url = url, v_urlKey = urlKey,
      visitAt = visit_now env, transitionType = [], v_tabId = tabId\<rparr>"

text \<open>
  \<^verbatim>\<open>logVisit\<close>. The result is the exception thrown, if any, and the world. A
  transaction that fails changes nothing in the store.
\<close>

definition logVisit :: "answers \<Rightarrow> int \<Rightarrow> string \<Rightarrow> string \<Rightarrow> world \<Rightarrow> string option \<times> world" where
  "logVisit env tabId url urlKey w =
     (let visit = newVisit env tabId url urlKey;
          w1 = logCall (CallPutVisit visit) w
      in if \<not> putVisit_ok env then (Some ''transaction error'', w1)
         else
           (let w2 = tx_putVisit visit w1;
                cutoff = purge_now env - DAYS_30_MS;
                w3 = logCall (CallPurgeVisits cutoff) w2
            in if \<not> purge_ok env then (Some ''transaction error'', w3)
               else (None, tx_purgeVisitsOlderThan cutoff w3)))"

text \<open>\<^verbatim>\<open>sha256Hex\<close>: each byte of the digest as two hexadecimal digits.\<close>

definition hexDigit :: "nat \<Rightarrow> char" where
  "hexDigit n = ''0123456789abcdef'' ! (n mod 16)"

fun toString16 :: "nat \<Rightarrow> string" where
  "toString16 n = (if n < 16 then [hexDigit n] else toString16 (n div 16) @ [hexDigit n])"

declare toString16.simps [simp del]

definition padStart2 :: "string \<Rightarrow> string" where
  "padStart2 s = replicate (2 - length s) (CHR ''0'') @ s"

definition sha256Hex :: "answers \<Rightarrow> string \<Rightarrow> string" where
  "sha256Hex env text = concat (map (\<lambda>b. padStart2 (toString16 b)) (subtle_digest env text))"

text \<open>\<^verbatim>\<open>{ title: res.title || "", html: res.html || "" }\<close>\<close>

definition snapshotOf :: "SnapshotResponse \<Rightarrow> Snapshot" where
  "snapshotOf res =
     \<lparr>snap_title = (case r_title res of None \<Rightarrow> [] | Some t \<Rightarrow> t),
      snap_html = (case r_html res of None \<Rightarrow> [] | Some h \<Rightarrow> h)\<rparr>"

text \<open>\<^verbatim>\<open>captureTabSnapshot\<close>: \<open>Inl\<close> is the exception.\<close>

definition captureTabSnapshot :: "answers \<Rightarrow> int \<Rightarrow> world \<Rightarrow> (string + Snapshot) \<times> world" where
  "captureTabSnapshot env tabId w =
     (let w1 = logCall (CallExecuteScript tabId) w
      in if \<not> executeScript_ok env then (Inl ''Cannot access contents of the page'', w1)
         else
           (let w2 = logCall (CallSendMessage tabId) w1
            in case sendMessage env of
                 Inl e \<Rightarrow> (Inl e, w2)
               | Inr None \<Rightarrow> (Inl ''Snapshot failed'', w2)
               | Inr (Some res) \<Rightarrow>
                   if \<not> ok res then
                     (Inl (case r_error res of None \<Rightarrow> ''Snapshot failed''
                           | Some e \<Rightarrow> if e = [] then ''Snapshot failed'' else e), w2)
                   else (Inr (snapshotOf res), w2)))"

text \<open>The object literal that \<^verbatim>\<open>archiveIfChanged\<close> gives to \<^verbatim>\<open>putPageVersion\<close>.\<close>

definition newVersion :: "answers \<Rightarrow> string \<Rightarrow> string \<Rightarrow> Snapshot \<Rightarrow> string \<Rightarrow> PageVersion" where
  "newVersion env url urlKey snap h =
     \<lparr>versionId = version_uuid env, pv_url = url, pv_urlKey = urlKey, title = snap_title snap,
      capturedAt = version_now env, hash = h, contentType = ''text/html'',
      html = snap_html snap\<rparr>"

text \<open>
  \<^verbatim>\<open>archiveIfChanged\<close>. A failed capture is caught inside and ends the function
  normally; a failed read or write of the store is thrown to the caller.
  \<^verbatim>\<open>latest?.hash === hash\<close> is false when there is no version.
\<close>

definition archiveIfChanged :: "'r platform \<Rightarrow> answers \<Rightarrow> int \<Rightarrow> string \<Rightarrow> world \<Rightarrow> string option \<times> world" where
  "archiveIfChanged P env tabId url w =
     (if \<not> shouldArchiveUrl P url w then (None, w)
      else
        (case captureTabSnapshot env tabId w of
           (Inl e, w1) \<Rightarrow> (None, w1)
         | (Inr snap, w1) \<Rightarrow>
             (let urlKey = toUrlKey url;
                  h = sha256Hex env (snap_html snap);
                  w2 = logCall (CallGetVersions urlKey) w1
              in if \<not> getVersions_ok env then (Some ''request error'', w2)
                 else
                   (let versions = getVersionsByUrlKey urlKey (pages w2)
                    in if (case versions of [] \<Rightarrow> False | latest # _ \<Rightarrow> hash latest = h)
                       then (None, w2)
                       else
                         (let version = newVersion env url urlKey snap h;
                              w3 = logCall (CallPutPageVersion version) w2
                          in if \<not> putPageVersion_ok env then (Some ''transaction error'', w3)
                             else (None, tx_putPageVersion version w3))))))"

text \<open>
  The \<^verbatim>\<open>try\<close> block of the callback. \<^verbatim>\<open>!tab?.url || tab.url !== url\<close> returns early
  for a tab without URL, with the empty URL or with another URL.
\<close>

definition archiveTimerTry :: "'r platform \<Rightarrow> answers \<Rightarrow> int \<Rightarrow> string \<Rightarrow> world \<Rightarrow> string option \<times> world" where
  "archiveTimerTry P env tabId url w =
     (case tabs_get env of
        Inl e \<Rightarrow> (Some e, w)
      | Inr tab \<Rightarrow>
          (case tab_url tab of
             None \<Rightarrow> (None, w)
           | Some u \<Rightarrow>
               if u = [] \<or> u \<noteq> url then (None, w)
               else
                 (case logVisit env tabId url (toUrlKey url) w of
                    (Some e, w1) \<Rightarrow> (Some e, w1)
                  | (None, w1) \<Rightarrow> archiveIfChanged P env tabId url w1)))"

text \<open>
  The callback: the \<^verbatim>\<open>catch\<close> block only logs the exception, and the \<^verbatim>\<open>finally\<close>
  block clears the state of the tab. The callback is one step of the model: no other
  handler runs between its awaits.
\<close>

definition archiveTimer :: "'r platform \<Rightarrow> answers \<Rightarrow> int \<Rightarrow> string \<Rightarrow> world \<Rightarrow> world" where
  "archiveTimer P env tabId url w = clearTabState tabId (snd (archiveTimerTry P env tabId url w))"

text \<open>
  The platform fires the pending timer \<open>tid\<close>: the timer is one-shot, so it leaves
  the pending timers, and its callback runs. A cancelled timer does not fire.
\<close>

definition fireTimer :: "'r platform \<Rightarrow> answers \<Rightarrow> nat \<Rightarrow> world \<Rightarrow> world" where
  "fireTimer P env tid w =
     (case timers w tid of
        None \<Rightarrow> w
      | Some task \<Rightarrow>
          archiveTimer P env (task_tabId task) (task_url task) (w\<lparr>timers := (timers w)(tid := None)\<rparr>))"

section \<open>Messages from the popup\<close>

text \<open>
  A JavaScript \<^verbatim>\<open>Set\<close> of strings is the list of its elements in insertion order;
  \<^verbatim>\<open>forEach\<close> visits them in that order.
\<close>

definition Set_add :: "string \<Rightarrow> string list \<Rightarrow> string list" where
  "Set_add x s = (if x \<in> set s then s else s @ [x])"

definition Set_delete :: "string \<Rightarrow> string list \<Rightarrow> string list" where
  "Set_delete x s = filter (\<lambda>y. y \<noteq> x) s"

definition Set_new :: "string list \<Rightarrow> string list" where
  "Set_new xs = foldl (\<lambda>s x. Set_add x s) [] xs"

text \<open>
  The branch \<^verbatim>\<open>PW_TOGGLE_HOST\<close> of the message listener; the argument is the field
  \<^verbatim>\<open>url\<close> of the message, which may be missing. The result is the settings of the
  response and the world. \<^verbatim>\<open>arr.sort()\<close> sorts the strings by their code units.
\<close>

definition onMessage_PW_TOGGLE_HOST :: "'r platform \<Rightarrow> string option \<Rightarrow> world \<Rightarrow> Settings \<times> world" where
  "onMessage_PW_TOGGLE_HOST P msg_url w =
     (let url = (case msg_url of None \<Rightarrow> [] | Some u \<Rightarrow> u);
          h = hostOf P url;
          settings = getSettings w;
          s0 = Set_new (disabledHosts settings);
          s1 = (if h \<noteq> [] then (if h \<in> set s0 then Set_delete h s0 else Set_add h s0) else s0);
          arr = sort s1;
          settings' = settings\<lparr>disabledHosts := arr\<rparr>
      in (settings', setSettings settings' w))"

section \<open>Observing a run\<close>

text \<open>The calls made between the world \<open>w\<close> and the later world \<open>w'\<close>.\<close>

definition newCalls :: "world \<Rightarrow> world \<Rightarrow> event list" where
  "newCalls w w' = drop (length (calls w)) (calls w')"

section \<open>Example inputs\<close>

text \<open>The worker before any event, with nothing stored.\<close>

definition emptyWorld :: world where
  "emptyWorld = \<lparr>navByTab = Map.empty, erroredTabUrl = Map.empty, timers = Map.empty,
     timerSeq = 0, settingsStore = None, pages = [], visits = [], calls = []\<rparr>"

text \<open>Tab 1 has completed a navigation at time 1000 and its dwell timer is pending.\<close>

definition pendingWorld :: world where
  "pendingWorld =
     onCompleted browser 1000 \<lparr>frameId = 0, d_tabId = 1, d_url = ''https://example.com/''\<rparr> emptyWorld"

text \<open>A visit store with three visits, at times 5, 10 and 15.\<close>

definition threeVisits :: world where
  "threeVisits = emptyWorld\<lparr>visits :=
     [\<lparr>visitId = ''a'', v_url = ''https://example.com/'', v_urlKey = ''https://example.com/'',
        visitAt = 5, transitionType = [], v_tabId = 1\<rparr>,
      \<lparr>visitId = ''b'', v_url = ''https://example.com/'', v_urlKey = ''https://example.com/'',
        visitAt = 10, transitionType = [], v_tabId = 1\<rparr>,
      \<lparr>visitId = ''c'', v_url = ''https://example.com/'', v_urlKey = ''https://example.com/'',
        visitAt = 15, transitionType = [], v_tabId = 1\<rparr>]\<rparr>"

text \<open>
  The answers of a run in which every call succeeds: tab 1 is still on the page, and
  the content script returns the markup \<^verbatim>\<open><html>A</html>\<close>, whose SHA-256 digest is
  \<open>digestA\<close>.
\<close>

definition pageHtml :: string where
  "pageHtml = ''<html>A</html>''"

definition digestA :: "nat list" where
  "digestA = [51, 158, 171, 99, 16, 114, 107, 18, 180, 129, 204, 4, 14, 117, 97, 121,
     179, 92, 143, 243, 240, 222, 142, 107, 120, 69, 108, 53, 176, 141, 4, 65]"

definition answersOk :: answers where
  "answersOk =
     \<lparr>tabs_get = Inr \<lparr>tab_url = Some ''https://example.com/''\<rparr>,
      visit_uuid = ''visit-1'', visit_now = 3000, putVisit_ok = True,
      purge_now = 3001, purge_ok = True, executeScript_ok = True,
      sendMessage = Inr (Some \<lparr>ok = True, r_title = Some ''A'', r_html = Some pageHtml,
                               r_error = None\<rparr>),
      subtle_digest = (\<lambda>text. if text = pageHtml then digestA else []),
      getVersions_ok = True, version_uuid = ''version-1'', version_now = 3002,
      putPageVersion_ok = True\<rparr>"

text \<open>The same run when the tab has been closed: \<^verbatim>\<open>chrome.tabs.get\<close> rejects.\<close>

definition answersTabGone :: answers where
  "answersTabGone = answersOk\<lparr>tabs_get := Inl ''No tab with id: 1.''\<rparr>"

text \<open>The world after the timer of \<open>pendingWorld\<close> has fired and the page is archived.\<close>

definition archivedWorld :: world where
  "archivedWorld = fireTimer browser answersOk 1 pendingWorld"

text \<open>Tab 1 loads the same page again; the second dwell timer is pending.\<close>

definition revisitWorld :: world where
  "revisitWorld =
     onCompleted browser 5000 \<lparr>frameId = 0, d_tabId = 1, d_url = ''https://example.com/''\<rparr> archivedWorld"

definition answersAgain :: answers where
  "answersAgain = answersOk\<lparr>visit_uuid := ''visit-2'', visit_now := 7000, purge_now := 7001,
     version_uuid := ''version-2'', version_now := 7002\<rparr>"

text \<open>Archiving is switched off while the timer of \<open>pendingWorld\<close> is pending.\<close>

definition disabledWorld :: world where
  "disabledWorld = setSettings ((getSettings pendingWorld)\<lparr>enabled := False\<rparr>) pendingWorld"

text \<open>Tab 1 has had a navigation error on an http(s) page, and on a local file.\<close>

definition erroredWorld :: world where
  "erroredWorld =
     onErrorOccurred \<lparr>frameId = 0, d_tabId = 1, d_url = ''https://example.com/''\<rparr> emptyWorld"

definition erroredFileWorld :: world where
  "erroredFileWorld =
     onErrorOccurred \<lparr>frameId = 0, d_tabId = 1, d_url = ''file:///tmp/missing.html''\<rparr> emptyWorld"

text \<open>The visit and the version that the run \<open>answersOk\<close> stores.\<close>

definition visit1 :: Visit where
  "visit1 = newVisit answersOk 1 ''https://example.com/'' ''https://example.com/''"

definition version1 :: PageVersion where
  "version1 = newVersion answersOk ''https://example.com/'' ''https://example.com/''
     \<lparr>snap_title = ''A'', snap_html = pageHtml\<rparr> (sha256Hex answersOk pageHtml)"

text \<open>Settings with two disabled hosts.\<close>

definition hostsWorld :: world where
  "hostsWorld = setSettings \<lparr>enabled = True, minStayMs = 2000,
     disabledHosts = [''a.example'', ''mail.google.com''], disabledUrlPatterns = []\<rparr> emptyWorld"



section \<open>Evaluating the browser model\<close>

lemmas browser_simps = browser_def url_new_def parseScheme_def upperChars_def lowerChars_def
  isSchemeChar_def toLower_def isAuthorityEnd_def bslash_def rx_new_def rx_test_def regexStr_def
  escapedChars_def syntaxChars_def groupingChars_def

lemma isHttpUrl_example: "isHttpUrl browser ''https://example.com/''"
  by (simp add: isHttpUrl_def browser_simps)

lemma isHttpUrl_example_other: "isHttpUrl browser ''https://example.com/other''"
  by (simp add: isHttpUrl_def browser_simps)

lemma not_isHttpUrl_newtab: "\<not> isHttpUrl browser ''chrome://newtab/''"
  by (simp add: isHttpUrl_def browser_simps)

lemma hostOf_example: "hostOf browser ''https://example.com/'' = ''example.com''"
  by (simp add: hostOf_def browser_simps)

lemma shouldArchiveUrl_example: "shouldArchiveUrl browser ''https://example.com/'' emptyWorld"
  by (simp add: shouldArchiveUrl_def shouldArchive_def isHttpUrl_example hostOf_example
      getSettings_def normalize_def emptyStored_def emptyWorld_def)

lemma pendingWorld_eq:
  "pendingWorld = emptyWorld\<lparr>
      navByTab := [1 \<mapsto> \<lparr>nav_url = ''https://example.com/'', completedAt = 1000,
                          errored = False, timerId = 1\<rparr>],
      timers := [1 \<mapsto> \<lparr>task_tabId = 1, task_url = ''https://example.com/'', task_delay = 2000\<rparr>],
      timerSeq := 1, calls := [CallSetTimeout 1]\<rparr>"
  unfolding pendingWorld_def onCompleted_def
  by (simp add: isHttpUrl_example shouldArchiveUrl_example Let_def setTimeout_def logCall_def)
     (simp add: emptyWorld_def getSettings_def normalize_def emptyStored_def)

section \<open>Clearing the state of a tab\<close>

lemma clearTabState_fields:
  "navByTab (clearTabState t w) = (navByTab w)(t := None)"
  "erroredTabUrl (clearTabState t w) = (erroredTabUrl w)(t := None)"
  "pages (clearTabState t w) = pages w"
  "visits (clearTabState t w) = visits w"
  "settingsStore (clearTabState t w) = settingsStore w"
  "timerSeq (clearTabState t w) = timerSeq w"
  by (auto simp: clearTabState_def clearTimeout_def logCall_def Let_def split: option.splits)

lemma clearTabState_timers:
  "timers (clearTabState t w) =
     (case navByTab w t of
        None \<Rightarrow> timers w
      | Some st \<Rightarrow> if timerId st \<noteq> 0 then (timers w)(timerId st := None) else timers w)"
  by (auto simp: clearTabState_def clearTimeout_def logCall_def Let_def split: option.splits)

lemma clearTabState_calls:
  "calls (clearTabState t w) =
     calls w @ (case navByTab w t of
                  None \<Rightarrow> []
                | Some st \<Rightarrow> if timerId st \<noteq> 0 then [CallClearTimeout (timerId st)] else [])"
  by (auto simp: clearTabState_def clearTimeout_def logCall_def Let_def split: option.splits)

text \<open>Every handle that \<^verbatim>\<open>onCompleted\<close> records in a \<open>NavState\<close> is non-zero.\<close>

lemma setTimeout_handle: "fst (setTimeout task w) = Suc (timerSeq w)"
  by (simp add: setTimeout_def Let_def)

lemma onCompleted_handle:
  assumes "navByTab (onCompleted P now d w) t = Some st" "navByTab w t \<noteq> Some st"
  shows "timerId st \<noteq> 0"
proof (rule ccontr)
  assume "\<not> timerId st \<noteq> 0"
  then have z: "timerId st = 0" by simp
  show False
    using assms z
    by (auto simp: onCompleted_def Let_def clearTabState_fields setTimeout_def logCall_def
        split: if_splits)
qed

section \<open>Commit events\<close>

text \<open>
  Claim C1, as the code has it. The listener of \<^verbatim>\<open>onCommitted\<close> returns before
  \<^verbatim>\<open>clearTabState\<close> when the committed URL is not an http(s) URL. So: a commit of the
  top-level frame to an http(s) URL, in any prior state, leaves the tab with no
  \<open>NavState\<close> and no errored URL and cancels the timer the \<open>NavState\<close> held (its
  handle is non-zero, as every handle of \<open>setTimeout\<close> is); a commit to any other URL
  changes nothing.
\<close>

theorem onCommitted_http_clears:
  "(frameId d = 0 \<and> isHttpUrl P (d_url d) \<longrightarrow>
      navByTab (onCommitted P d w) (d_tabId d) = None
    \<and> erroredTabUrl (onCommitted P d w) (d_tabId d) = None
    \<and> (\<forall>st. navByTab w (d_tabId d) = Some st \<and> timerId st \<noteq> 0
          \<longrightarrow> timers (onCommitted P d w) (timerId st) = None))
   \<and> (\<not> isHttpUrl P (d_url d) \<longrightarrow> onCommitted P d w = w)"
  by (auto simp: onCommitted_def clearTabState_fields clearTabState_timers)

text \<open>
  The theorem at a commit of tab 1 to another http(s) page while its timer is pending:
  the state and the timer are gone.
\<close>

theorem onCommitted_http_clears_witness:
  "frameId \<lparr>frameId = 0, d_tabId = 1, d_url = ''https://example.com/other''\<rparr> = 0
   \<and> isHttpUrl browser ''https://example.com/other''
   \<and> navByTab pendingWorld 1 \<noteq> None \<and> timers pendingWorld 1 \<noteq> None
   \<and> navByTab (onCommitted browser
        \<lparr>frameId = 0, d_tabId = 1, d_url = ''https://example.com/other''\<rparr> pendingWorld) 1 = None
   \<and> timers (onCommitted browser
        \<lparr>frameId = 0, d_tabId = 1, d_url = ''https://example.com/other''\<rparr> pendingWorld) 1 = None"
  using onCommitted_http_clears
    [of "\<lparr>frameId = 0, d_tabId = 1, d_url = ''https://example.com/other''\<rparr>" browser pendingWorld]
  by (simp add: isHttpUrl_example_other pendingWorld_eq)

text \<open>
  Claim C1 as stated fails: tab 1 commits, in its top-level frame, a navigation to
  \<^verbatim>\<open>chrome://newtab/\<close> while its dwell timer is pending, and both the \<open>NavState\<close> and
  the timer are still there afterwards.
\<close>

theorem onCommitted_non_http_counterexample:
  "navByTab (onCommitted browser
      \<lparr>frameId = 0, d_tabId = 1, d_url = ''chrome://newtab/''\<rparr> pendingWorld) 1 \<noteq> None
   \<and> timers (onCommitted browser
      \<lparr>frameId = 0, d_tabId = 1, d_url = ''chrome://newtab/''\<rparr> pendingWorld) 1 \<noteq> None"
  by (simp add: onCommitted_def not_isHttpUrl_newtab pendingWorld_eq)

section \<open>Wildcard patterns\<close>

lemma urlMatchesPatterns_filter:
  "urlMatchesPatterns P url (filter (\<lambda>p. wildcardToRegExp P p \<noteq> None) ps)
   = urlMatchesPatterns P url ps"
  by (induction ps) (auto split: option.splits)

lemma urlMatchesPatterns_iff:
  "urlMatchesPatterns P url ps \<longleftrightarrow>
     (\<exists>p\<in>set ps. \<exists>r. wildcardToRegExp P p = Some r \<and> RegExp_test P r url)"
  by (induction ps) (auto split: option.splits)

lemma shouldArchive_filter:
  "shouldArchive P (settings\<lparr>disabledUrlPatterns :=
      filter (\<lambda>p. wildcardToRegExp P p \<noteq> None) (disabledUrlPatterns settings)\<rparr>) url
   = shouldArchive P settings url"
  using urlMatchesPatterns_filter[of P url "disabledUrlPatterns settings"]
  by (auto simp: shouldArchive_def)

text \<open>
  What the two replacements compute. The first does not escape the star, and the
  second looks for a star that has been escaped: in a pattern without backslash it
  finds none, and the star reaches \<^verbatim>\<open>new RegExp\<close> as the quantifier of the character
  before it.
\<close>

lemma replaceEscapedStar_no_backslash:
  "bslash \<notin> set p \<Longrightarrow> replaceEscapedStar (escapeRegExp p) = escapeRegExp p"
proof (induction p)
  case Nil
  then show ?case by simp
next
  case (Cons c cs)
  then have IH: "replaceEscapedStar (escapeRegExp cs) = escapeRegExp cs" and c: "c \<noteq> bslash"
    by auto
  show ?case
  proof (cases "escapeRegExp cs")
    case Nil
    then show ?thesis using c by (auto simp: escapedChars_def bslash_def)
  next
    case (Cons d ds)
    then show ?thesis using c IH by (auto simp: escapedChars_def bslash_def)
  qed
qed

text \<open>A pattern that begins with a star does not compile: there is nothing to repeat.\<close>

lemma leading_star_SyntaxError: "wildcardToRegExp browser (CHR ''*'' # p) = None"
  by (cases "escapeRegExp p")
     (simp_all add: wildcardToRegExp_def browser_def rx_new_def regexStr_def escapedChars_def
        bslash_def groupingChars_def)

text \<open>
  Every string that \<^verbatim>\<open>wildcardToRegExp\<close> gives to \<^verbatim>\<open>new RegExp\<close> is one the model
  of the regular expressions covers.
\<close>

lemma rx_parse_inFragment: "inFragment s \<Longrightarrow> rx_parse s acc \<noteq> Unsupported"
proof (induction "length s" arbitrary: s acc rule: less_induct)
  case less
  show ?case
  proof (cases s)
    case Nil
    then show ?thesis by simp
  next
    case (Cons c cs)
    show ?thesis
    proof (cases "c = bslash")
      case True
      with less.prems Cons obtain d ds where cs: "cs = d # ds" "d \<in> set syntaxChars" "inFragment ds"
        by (auto split: list.splits)
      have "rx_parse ds (Atom (Lit d) # acc) \<noteq> Unsupported"
        using less.hyps[of ds] cs Cons by simp
      then show ?thesis using True Cons cs by (simp add: rx_parse.simps(2))
    next
      case False
      with less.prems Cons have c: "c \<notin> set groupingChars" "inFragment cs" by auto
      have IH: "rx_parse cs acc' \<noteq> Unsupported" for acc'
        using less.hyps[of cs] c Cons by simp
      show ?thesis
        using False c(1) IH Cons
        by (simp add: rx_parse.simps(2) split: list.splits rx_term.splits)
    qed
  qed
qed

lemma inFragment_append: "inFragment s \<Longrightarrow> inFragment t \<Longrightarrow> inFragment (s @ t)"
  by (induction s rule: inFragment.induct) (auto split: list.splits)

lemma escaped_in_syntax: "c \<in> set escapedChars \<Longrightarrow> c \<in> set syntaxChars"
  by (auto simp: escapedChars_def syntaxChars_def)

lemma plain_ok: "c \<notin> set escapedChars \<Longrightarrow> c \<noteq> bslash \<and> c \<notin> set groupingChars"
  by (auto simp: escapedChars_def groupingChars_def)

lemma replaced_inFragment: "inFragment (replaceEscapedStar (escapeRegExp p))"
proof (induction "length p" arbitrary: p rule: less_induct)
  case less
  show ?case
  proof (cases p)
    case Nil
    then show ?thesis by simp
  next
    case (Cons c cs)
    have IH: "inFragment (replaceEscapedStar (escapeRegExp cs))"
      using less[of cs] Cons by simp
    show ?thesis
    proof (cases "c \<in> set escapedChars")
      case False
      then have "replaceEscapedStar (escapeRegExp p) = c # replaceEscapedStar (escapeRegExp cs)"
        using Cons plain_ok[OF False] by (cases "escapeRegExp cs") auto
      then show ?thesis using IH plain_ok[OF False] by simp
    next
      case True
      show ?thesis
      proof (cases "c = bslash")
        case False
        then have "c \<noteq> CHR ''*''" using True by (auto simp: escapedChars_def)
        then have "replaceEscapedStar (escapeRegExp p) = bslash # c # replaceEscapedStar (escapeRegExp cs)"
          using Cons True False by (cases "escapeRegExp cs") auto
        then show ?thesis using IH escaped_in_syntax[OF True] by simp
      next
        case c: True
        show ?thesis
        proof (cases cs)
          case Nil
          then show ?thesis using Cons c True by (simp add: syntaxChars_def bslash_def)
        next
          case (Cons d ds)
          show ?thesis
          proof (cases "d = CHR ''*''")
            case True
            have "inFragment (replaceEscapedStar (escapeRegExp ds))"
              using less[of ds] \<open>p = c # cs\<close> Cons by simp
            moreover have "replaceEscapedStar (escapeRegExp p) =
                bslash # CHR ''.'' # CHR ''*'' # replaceEscapedStar (escapeRegExp ds)"
              using \<open>p = c # cs\<close> Cons c True by (simp add: escapedChars_def bslash_def)
            ultimately show ?thesis by (simp add: syntaxChars_def bslash_def groupingChars_def)
          next
            case False
            have "replaceEscapedStar (escapeRegExp p) = bslash # bslash # replaceEscapedStar (escapeRegExp cs)"
              using \<open>p = c # cs\<close> Cons c False \<open>c \<in> set escapedChars\<close>
              by (cases "escapeRegExp ds") (auto simp: bslash_def)
            then show ?thesis using IH by (simp add: syntaxChars_def)
          qed
        qed
      qed
    qed
  qed
qed

lemma regexStr_modelled: "rx_parse (regexStr p) [] \<noteq> Unsupported"
proof -
  have "inFragment (regexStr p)"
    unfolding regexStr_def
    using inFragment_append[OF replaced_inFragment[of p], of "''$''"]
    by (simp add: bslash_def groupingChars_def)
  then show ?thesis by (rule rx_parse_inFragment)
qed

text \<open>
  Claim C6 at the pattern of the specification. The regular expression built from
  \<^verbatim>\<open>*://*.github.com/*/settings*\<close> is \<^verbatim>\<open>^*://*\.github\.com/*/settings*$\<close>, which
  \<^verbatim>\<open>new RegExp\<close> rejects; the pattern is skipped and the URL
  \<^verbatim>\<open>https://foo.github.com/bar/settings/x\<close> is not matched, where the claim says it is.
\<close>

theorem github_settings_pattern_not_matched:
  "regexStr ''*://*.github.com/*/settings*''
     = ''^*://*'' @ [bslash] @ ''.github'' @ [bslash] @ ''.com/*/settings*$''
   \<and> wildcardToRegExp browser ''*://*.github.com/*/settings*'' = None
   \<and> urlMatchesPatterns browser ''https://foo.github.com/bar/settings/x''
        [''*://*.github.com/*/settings*''] = False"
  by (simp add: wildcardToRegExp_def browser_simps)

text \<open>
  Claim C7. A pattern that does not compile is skipped: the result of
  \<^verbatim>\<open>urlMatchesPatterns\<close> is its result on the patterns that compile, it is false when
  no pattern compiles, and the eligibility of a URL is the same with the malformed
  patterns removed from the settings. The exception of the compilation is the value
  \<open>None\<close>, and \<^verbatim>\<open>urlMatchesPatterns\<close> and \<^verbatim>\<open>shouldArchiveUrl\<close> return a boolean for
  it.
\<close>

theorem urlMatchesPatterns_skips_malformed:
  "urlMatchesPatterns P url ps
     = urlMatchesPatterns P url (filter (\<lambda>p. wildcardToRegExp P p \<noteq> None) ps)
   \<and> ((\<forall>p\<in>set ps. wildcardToRegExp P p = None) \<longrightarrow> \<not> urlMatchesPatterns P url ps)
   \<and> shouldArchive P (settings\<lparr>disabledUrlPatterns :=
        filter (\<lambda>p. wildcardToRegExp P p \<noteq> None) (disabledUrlPatterns settings)\<rparr>) url
      = shouldArchive P settings url"
proof (intro conjI impI)
  show "urlMatchesPatterns P url ps
     = urlMatchesPatterns P url (filter (\<lambda>p. wildcardToRegExp P p \<noteq> None) ps)"
    by (rule urlMatchesPatterns_filter[symmetric])
  show "\<not> urlMatchesPatterns P url ps" if "\<forall>p\<in>set ps. wildcardToRegExp P p = None"
    using that by (simp add: urlMatchesPatterns_iff)
  show "shouldArchive P (settings\<lparr>disabledUrlPatterns :=
        filter (\<lambda>p. wildcardToRegExp P p \<noteq> None) (disabledUrlPatterns settings)\<rparr>) url
      = shouldArchive P settings url"
    by (rule shouldArchive_filter)
qed

text \<open>
  The theorem at the list of the two malformed patterns \<^verbatim>\<open>*\<close> and \<^verbatim>\<open>a**\<close>: neither
  compiles, and the URL is not matched.
\<close>

theorem urlMatchesPatterns_skips_malformed_witness:
  "wildcardToRegExp browser ''*'' = None \<and> wildcardToRegExp browser ''a**'' = None
   \<and> \<not> urlMatchesPatterns browser ''https://example.com/'' [''*'', ''a**'']"
  using urlMatchesPatterns_skips_malformed[of browser "''https://example.com/''" "[''*'', ''a**'']"]
  by (simp add: wildcardToRegExp_def browser_simps)

section \<open>The visit store\<close>

lemma distinct_putRecord:
  "distinct (map key store) \<Longrightarrow> distinct (map key (putRecord key r store))"
  unfolding putRecord_def deleteByKey_def distinct_map
  by (auto simp: distinct_insort set_insort_key inj_on_def)

lemma sorted_putRecord:
  "sorted (map key store) \<Longrightarrow> sorted (map key (putRecord key r store))"
  by (auto simp: putRecord_def deleteByKey_def sorted_insort_key sorted_filter)

lemma set_putRecord:
  "set (putRecord key r store) = insert r {x \<in> set store. key x \<noteq> key r}"
  by (auto simp: putRecord_def deleteByKey_def set_insort_key)

lemma cursorDeleteAll_filter:
  "cursorDeleteAll rs store = filter (\<lambda>v. visitId v \<notin> visitId ` set rs) store"
  by (induction rs arbitrary: store) (auto simp: deleteByKey_def intro: filter_cong)

text \<open>
  Claim C8. In a store whose keys are distinct, as the keys of an object store are,
  the purge keeps exactly the visits with \<open>cutoff \<le> visitAt\<close>, each unchanged and in
  its place: a visit at the cutoff stays. The page store is not touched.
\<close>

theorem purgeVisitsOlderThan_exact:
  assumes "distinct (map visitId (visits w))"
  shows "visits (tx_purgeVisitsOlderThan cutoff w) = filter (\<lambda>v. cutoff \<le> visitAt v) (visits w)
         \<and> pages (tx_purgeVisitsOlderThan cutoff w) = pages w"
proof -
  let ?store = "visits w"
  have "visitId v \<notin> visitId ` {x \<in> set ?store. visitAt x < cutoff} \<longleftrightarrow> cutoff \<le> visitAt v"
    if "v \<in> set ?store" for v
  proof
    assume keep: "cutoff \<le> visitAt v"
    show "visitId v \<notin> visitId ` {x \<in> set ?store. visitAt x < cutoff}"
    proof
      assume "visitId v \<in> visitId ` {x \<in> set ?store. visitAt x < cutoff}"
      then obtain x where x: "x \<in> set ?store" "visitAt x < cutoff" "visitId x = visitId v"
        by auto
      with assms that have "x = v"
        by (meson distinct_map inj_onD)
      with x keep show False by simp
    qed
  next
    assume "visitId v \<notin> visitId ` {x \<in> set ?store. visitAt x < cutoff}"
    with that show "cutoff \<le> visitAt v" by force
  qed
  then have "purgeVisitsOlderThan cutoff ?store = filter (\<lambda>v. cutoff \<le> visitAt v) ?store"
    by (auto simp: purgeVisitsOlderThan_def cursorDeleteAll_filter indexRange_by_visitAt_def
        intro!: filter_cong)
  then show ?thesis
    by (simp add: tx_purgeVisitsOlderThan_def)
qed

text \<open>The theorem at the three visits and the cutoff 10: the visit at 10 stays.\<close>

theorem purgeVisitsOlderThan_exact_witness:
  "distinct (map visitId (visits threeVisits))
   \<and> map visitAt (visits (tx_purgeVisitsOlderThan 10 threeVisits)) = [10, 15]"
  using purgeVisitsOlderThan_exact[of threeVisits 10]
  by (simp add: threeVisits_def emptyWorld_def)

section \<open>Completion events\<close>

lemma erroredWorld_eq: "erroredWorld = emptyWorld\<lparr>erroredTabUrl := [1 \<mapsto> ''https://example.com/'']\<rparr>"
  by (simp add: erroredWorld_def onErrorOccurred_def emptyWorld_def)

lemma erroredFileWorld_eq: "erroredFileWorld = emptyWorld\<lparr>erroredTabUrl := [1 \<mapsto> ''file:///tmp/missing.html'']\<rparr>"
  by (simp add: erroredFileWorld_def onErrorOccurred_def emptyWorld_def)

lemma file_not_http: "\<not> isHttpUrl browser ''file:///tmp/missing.html''"
  by (simp add: isHttpUrl_def browser_simps)

text \<open>
  Claim C3, as the code has it. The listener of \<^verbatim>\<open>onCompleted\<close> returns at
  \<^verbatim>\<open>if (!isHttpUrl(url)) return;\<close> before it looks at \<open>erroredTabUrl\<close>. So: a
  completion of the top-level frame for an http(s) URL that is the errored URL of the
  tab clears the \<open>NavState\<close> and the errored URL of the tab, gives out no timer handle
  and adds no pending timer, makes no call but the cancelling of the old timer, and
  leaves both stores as they are; a completion for any other kind of URL changes
  nothing at all, so it schedules and writes nothing, and it clears nothing either.
\<close>

theorem onCompleted_after_error_http:
  "(frameId d = 0 \<and> isHttpUrl P (d_url d) \<and> erroredTabUrl w (d_tabId d) = Some (d_url d) \<longrightarrow>
      navByTab (onCompleted P now d w) (d_tabId d) = None
    \<and> erroredTabUrl (onCompleted P now d w) (d_tabId d) = None
    \<and> timerSeq (onCompleted P now d w) = timerSeq w
    \<and> (\<forall>tid. timers (onCompleted P now d w) tid \<noteq> None
          \<longrightarrow> timers (onCompleted P now d w) tid = timers w tid)
    \<and> set (newCalls w (onCompleted P now d w)) \<subseteq> range CallClearTimeout
    \<and> pages (onCompleted P now d w) = pages w
    \<and> visits (onCompleted P now d w) = visits w)
   \<and> (\<not> isHttpUrl P (d_url d) \<longrightarrow> onCompleted P now d w = w)"
  by (auto simp: onCompleted_def Let_def clearTabState_fields clearTabState_timers
        clearTabState_calls newCalls_def split: option.splits)

text \<open>
  The theorem at an error on \<^verbatim>\<open>https://example.com/\<close> followed by the completion of
  the same URL in the same tab.
\<close>

theorem onCompleted_after_error_http_witness:
  "frameId \<lparr>frameId = 0, d_tabId = 1, d_url = ''https://example.com/''\<rparr> = 0
   \<and> isHttpUrl browser ''https://example.com/''
   \<and> erroredTabUrl erroredWorld 1 = Some ''https://example.com/''
   \<and> erroredTabUrl (onCompleted browser 1000
         \<lparr>frameId = 0, d_tabId = 1, d_url = ''https://example.com/''\<rparr> erroredWorld) 1 = None
   \<and> timerSeq (onCompleted browser 1000
         \<lparr>frameId = 0, d_tabId = 1, d_url = ''https://example.com/''\<rparr> erroredWorld) = 0
   \<and> visits (onCompleted browser 1000
         \<lparr>frameId = 0, d_tabId = 1, d_url = ''https://example.com/''\<rparr> erroredWorld) = []
   \<and> pages (onCompleted browser 1000
         \<lparr>frameId = 0, d_tabId = 1, d_url = ''https://example.com/''\<rparr> erroredWorld) = []"
  using onCompleted_after_error_http[of "\<lparr>frameId = 0, d_tabId = 1, d_url = ''https://example.com/''\<rparr>" browser erroredWorld 1000]
    isHttpUrl_example
  by (simp add: erroredWorld_eq emptyWorld_def)

text \<open>
  Claim C3 as stated fails: after an error on \<^verbatim>\<open>file:///tmp/missing.html\<close> in tab 1, the
  completion of that URL in tab 1 does not clear the tracked state: the errored URL of
  the tab is still recorded.
\<close>

theorem onCompleted_after_error_file_counterexample:
  "erroredTabUrl erroredFileWorld 1 = Some ''file:///tmp/missing.html''
   \<and> erroredTabUrl (onCompleted browser 1000
         \<lparr>frameId = 0, d_tabId = 1, d_url = ''file:///tmp/missing.html''\<rparr> erroredFileWorld) 1
       = Some ''file:///tmp/missing.html''"
  by (simp add: onCompleted_def file_not_http erroredFileWorld_eq)

section \<open>The run of the timer callback\<close>

lemma captureTabSnapshot_frame:
  "navByTab (snd (captureTabSnapshot env tab w)) = navByTab w"
  "erroredTabUrl (snd (captureTabSnapshot env tab w)) = erroredTabUrl w"
  "timers (snd (captureTabSnapshot env tab w)) = timers w"
  "timerSeq (snd (captureTabSnapshot env tab w)) = timerSeq w"
  "settingsStore (snd (captureTabSnapshot env tab w)) = settingsStore w"
  "pages (snd (captureTabSnapshot env tab w)) = pages w"
  "visits (snd (captureTabSnapshot env tab w)) = visits w"
  by (auto simp: captureTabSnapshot_def logCall_def Let_def split: sum.splits option.splits)

lemma logVisit_frame:
  "navByTab (snd (logVisit env tab url k w)) = navByTab w"
  "erroredTabUrl (snd (logVisit env tab url k w)) = erroredTabUrl w"
  "timers (snd (logVisit env tab url k w)) = timers w"
  "timerSeq (snd (logVisit env tab url k w)) = timerSeq w"
  "settingsStore (snd (logVisit env tab url k w)) = settingsStore w"
  "pages (snd (logVisit env tab url k w)) = pages w"
  by (auto simp: logVisit_def logCall_def Let_def tx_putVisit_def tx_purgeVisitsOlderThan_def)

lemma archiveIfChanged_frame:
  "navByTab (snd (archiveIfChanged P env tab url w)) = navByTab w"
  "erroredTabUrl (snd (archiveIfChanged P env tab url w)) = erroredTabUrl w"
  "timers (snd (archiveIfChanged P env tab url w)) = timers w"
  "timerSeq (snd (archiveIfChanged P env tab url w)) = timerSeq w"
  "settingsStore (snd (archiveIfChanged P env tab url w)) = settingsStore w"
  "visits (snd (archiveIfChanged P env tab url w)) = visits w"
  using captureTabSnapshot_frame[of env tab w]
  by (auto simp: archiveIfChanged_def logCall_def Let_def tx_putPageVersion_def
      split: sum.splits prod.splits list.splits)

lemma archiveTimerTry_frame:
  "navByTab (snd (archiveTimerTry P env tab url w)) = navByTab w"
  "erroredTabUrl (snd (archiveTimerTry P env tab url w)) = erroredTabUrl w"
  "timers (snd (archiveTimerTry P env tab url w)) = timers w"
  "timerSeq (snd (archiveTimerTry P env tab url w)) = timerSeq w"
  "settingsStore (snd (archiveTimerTry P env tab url w)) = settingsStore w"
  using logVisit_frame[of env tab url "toUrlKey url" w]
    archiveIfChanged_frame[of P env tab url "snd (logVisit env tab url (toUrlKey url) w)"]
  by (auto simp: archiveTimerTry_def split: sum.splits option.splits prod.splits)

lemma archiveTimerTry_abort:
  "\<forall>tab. tabs_get env = Inr tab \<longrightarrow> tab_url tab \<noteq> Some url \<Longrightarrow>
   snd (archiveTimerTry P env t url w) = w"
  by (auto simp: archiveTimerTry_def split: sum.splits option.splits)

lemma logVisit_result:
  "fst (logVisit env tab url k w) = None \<longleftrightarrow> putVisit_ok env \<and> purge_ok env"
  "calls (snd (logVisit env tab url k w)) =
     calls w @ CallPutVisit (newVisit env tab url k)
       # (if putVisit_ok env then [CallPurgeVisits (purge_now env - DAYS_30_MS)] else [])"
  "visits (snd (logVisit env tab url k w)) =
     (if putVisit_ok env then
        (if purge_ok env
         then purgeVisitsOlderThan (purge_now env - DAYS_30_MS) (putVisit (newVisit env tab url k) (visits w))
         else putVisit (newVisit env tab url k) (visits w))
      else visits w)"
  by (auto simp: logVisit_def logCall_def Let_def tx_putVisit_def tx_purgeVisitsOlderThan_def)

lemma archiveIfChanged_ineligible:
  "\<not> shouldArchiveUrl P url w \<Longrightarrow> archiveIfChanged P env tab url w = (None, w)"
  by (simp add: archiveIfChanged_def)

lemma shouldArchiveUrl_cong:
  "settingsStore w' = settingsStore w \<Longrightarrow> shouldArchiveUrl P url w' = shouldArchiveUrl P url w"
  by (simp add: shouldArchiveUrl_def getSettings_def)

lemma archiveIfChanged_calls:
  "\<exists>rest. calls (snd (archiveIfChanged P env tab url w)) =
     calls w @ (if shouldArchiveUrl P url w then CallExecuteScript tab # rest else [])"
  by (auto simp: archiveIfChanged_def captureTabSnapshot_def logCall_def Let_def tx_putPageVersion_def
      split: sum.splits prod.splits list.splits option.splits)

lemma archiveIfChanged_pages:
  "pages (snd (archiveIfChanged P env tab url w)) \<noteq> pages w \<Longrightarrow> shouldArchiveUrl P url w"
  by (cases "shouldArchiveUrl P url w") (simp_all add: archiveIfChanged_def)

lemma archiveTimerTry_match:
  "tabs_get env = Inr t \<Longrightarrow> tab_url t = Some url \<Longrightarrow> url \<noteq> [] \<Longrightarrow>
   archiveTimerTry P env tab url w =
     (case logVisit env tab url (toUrlKey url) w of
        (Some e, w1) \<Rightarrow> (Some e, w1)
      | (None, w1) \<Rightarrow> archiveIfChanged P env tab url w1)"
  by (simp add: archiveTimerTry_def)

lemma archiveTimerTry_cases:
  obtains (abort) "\<not> (\<exists>t. tabs_get env = Inr t \<and> tab_url t = Some url \<and> url \<noteq> [])"
       "snd (archiveTimerTry P env tab url w) = w"
  | (visit_failed) "\<not> (putVisit_ok env \<and> purge_ok env)"
       "snd (archiveTimerTry P env tab url w) = snd (logVisit env tab url (toUrlKey url) w)"
  | (archive) "putVisit_ok env" "purge_ok env"
       "snd (archiveTimerTry P env tab url w) =
          snd (archiveIfChanged P env tab url (snd (logVisit env tab url (toUrlKey url) w)))"
proof (cases "\<exists>t. tabs_get env = Inr t \<and> tab_url t = Some url \<and> url \<noteq> []")
  case False
  then have "snd (archiveTimerTry P env tab url w) = w"
    by (auto simp: archiveTimerTry_def split: sum.splits option.splits)
  with False show ?thesis by (rule abort)
next
  case True
  then obtain t where t: "tabs_get env = Inr t" "tab_url t = Some url" "url \<noteq> []" by blast
  note m = archiveTimerTry_match[OF t, of P tab w]
  show ?thesis
  proof (cases "putVisit_ok env \<and> purge_ok env")
    case True
    then have "fst (logVisit env tab url (toUrlKey url) w) = None"
      by (simp add: logVisit_result)
    then have "snd (archiveTimerTry P env tab url w) =
          snd (archiveIfChanged P env tab url (snd (logVisit env tab url (toUrlKey url) w)))"
      by (auto simp: m split: prod.splits)
    with True show ?thesis by (auto intro: archive)
  next
    case False
    then have "fst (logVisit env tab url (toUrlKey url) w) \<noteq> None"
      by (simp add: logVisit_result)
    then have "snd (archiveTimerTry P env tab url w) = snd (logVisit env tab url (toUrlKey url) w)"
      by (auto simp: m split: prod.splits option.splits)
    with False show ?thesis by (auto intro: visit_failed)
  qed
qed

lemma fireTimer_eq:
  "timers w tid = Some task \<Longrightarrow>
   fireTimer P env tid w = clearTabState (task_tabId task)
     (snd (archiveTimerTry P env (task_tabId task) (task_url task) (w\<lparr>timers := (timers w)(tid := None)\<rparr>)))"
  by (simp add: fireTimer_def archiveTimer_def)

lemma newCalls_append: "calls w' = calls w @ cs \<Longrightarrow> newCalls w w' = cs"
  by (simp add: newCalls_def)

lemma getVersionsByUrlKey_Nil:
  "getVersionsByUrlKey k store = [] \<Longrightarrow> \<forall>v\<in>set store. pv_urlKey v \<noteq> k"
proof -
  assume "getVersionsByUrlKey k store = []"
  then have "set (sort_key (\<lambda>v. - capturedAt v) (filter (\<lambda>v. pv_urlKey v = k) store)) = {}"
    by (simp add: getVersionsByUrlKey_def)
  then show ?thesis by (auto simp: filter_empty_conv)
qed

lemma getVersionsByUrlKey_Cons:
  assumes "getVersionsByUrlKey k store = latest # rest"
  shows "latest \<in> set store" "pv_urlKey latest = k"
    "\<forall>v\<in>set store. pv_urlKey v = k \<longrightarrow> capturedAt v \<le> capturedAt latest"
proof -
  let ?xs = "filter (\<lambda>v. pv_urlKey v = k) store"
  have eq: "sort_key (\<lambda>v. - capturedAt v) ?xs = latest # rest"
    using assms by (simp add: getVersionsByUrlKey_def)
  have "set (latest # rest) = set ?xs"
    by (simp flip: eq)
  then have mem: "latest \<in> set ?xs" and sub: "set ?xs \<subseteq> set (latest # rest)" by auto
  from mem show "latest \<in> set store" "pv_urlKey latest = k" by auto
  have "sorted (map (\<lambda>v. - capturedAt v) (latest # rest))"
    by (simp flip: eq)
  then have "\<forall>v\<in>set (latest # rest). - capturedAt latest \<le> - capturedAt v"
    by auto
  with sub show "\<forall>v\<in>set store. pv_urlKey v = k \<longrightarrow> capturedAt v \<le> capturedAt latest"
    by auto
qed

lemma archiveIfChanged_captured:
  assumes "shouldArchiveUrl P url w" "executeScript_ok env" "sendMessage env = Inr (Some res)"
    "ok res" "getVersions_ok env"
  defines "h \<equiv> sha256Hex env (snap_html (snapshotOf res))"
  defines "dup \<equiv> (case getVersionsByUrlKey (toUrlKey url) (pages w) of
                     [] \<Rightarrow> False | latest # _ \<Rightarrow> hash latest = h)"
  shows "calls (snd (archiveIfChanged P env tab url w)) =
           calls w @ [CallExecuteScript tab, CallSendMessage tab, CallGetVersions (toUrlKey url)]
             @ (if dup then []
                else [CallPutPageVersion (newVersion env url (toUrlKey url) (snapshotOf res) h)])"
    and "pages (snd (archiveIfChanged P env tab url w)) =
           (if dup \<or> \<not> putPageVersion_ok env then pages w
            else putPageVersion (newVersion env url (toUrlKey url) (snapshotOf res) h) (pages w))"
  using assms(1-5) unfolding h_def dup_def
  by (simp_all add: archiveIfChanged_def captureTabSnapshot_def logCall_def Let_def
      tx_putPageVersion_def)

section \<open>Evaluating the example runs\<close>

lemma answersOk_sel:
  "tabs_get answersOk = Inr \<lparr>tab_url = Some ''https://example.com/''\<rparr>"
  "putVisit_ok answersOk" "purge_ok answersOk" "executeScript_ok answersOk"
  "sendMessage answersOk = Inr (Some \<lparr>ok = True, r_title = Some ''A'', r_html = Some pageHtml, r_error = None\<rparr>)"
  "getVersions_ok answersOk" "putPageVersion_ok answersOk"
  by (simp_all add: answersOk_def)

lemma shouldArchive_pending: "shouldArchiveUrl browser ''https://example.com/'' pendingWorld"
  using shouldArchiveUrl_example
  by (simp add: shouldArchiveUrl_def getSettings_def pendingWorld_eq)

lemma timers_pending: "timers pendingWorld 1 = Some \<lparr>task_tabId = 1, task_url = ''https://example.com/'', task_delay = 2000\<rparr>"
  by (simp add: pendingWorld_eq)

lemma sha_A: "sha256Hex answersOk pageHtml = ''339eab6310726b12b481cc040e756179b35c8ff3f0de8e6b78456c35b08d0441''"
  by (simp add: sha256Hex_def answersOk_def digestA_def padStart2_def toString16.simps hexDigit_def)

lemma archivedWorld_eq:
  "archivedWorld = emptyWorld\<lparr>timerSeq := 1, pages := [version1], visits := [visit1],
     calls := [CallSetTimeout 1, CallPutVisit visit1, CallPurgeVisits (3001 - DAYS_30_MS),
       CallExecuteScript 1, CallSendMessage 1, CallGetVersions ''https://example.com/'',
       CallPutPageVersion version1, CallClearTimeout 1]\<rparr>"
  unfolding archivedWorld_def fireTimer_eq[OF timers_pending] archiveTimerTry_def
  apply (simp add: answersOk_sel logVisit_def Let_def logCall_def tx_putVisit_def tx_purgeVisitsOlderThan_def toUrlKey_def)
  apply (simp add: archiveIfChanged_def shouldArchiveUrl_cong[of _ pendingWorld] shouldArchive_pending
      captureTabSnapshot_def answersOk_sel Let_def logCall_def toUrlKey_def tx_putPageVersion_def snapshotOf_def)
  apply (simp add: pendingWorld_eq emptyWorld_def clearTabState_def clearTimeout_def logCall_def
      getVersionsByUrlKey_def putPageVersion_def putRecord_def deleteByKey_def putVisit_def
      purgeVisitsOlderThan_def indexRange_by_visitAt_def visit1_def version1_def newVisit_def DAYS_30_MS_def answersOk_def)
  done

lemma shouldArchive_archived: "shouldArchiveUrl browser ''https://example.com/'' archivedWorld"
  using shouldArchiveUrl_example
  by (simp add: shouldArchiveUrl_def getSettings_def archivedWorld_eq)

lemma revisitWorld_eq:
  "revisitWorld = archivedWorld\<lparr>
      navByTab := [1 \<mapsto> \<lparr>nav_url = ''https://example.com/'', completedAt = 5000,
                          errored = False, timerId = 2\<rparr>],
      timers := [2 \<mapsto> \<lparr>task_tabId = 1, task_url = ''https://example.com/'', task_delay = 2000\<rparr>],
      timerSeq := 2, calls := calls archivedWorld @ [CallSetTimeout 2]\<rparr>"
  unfolding revisitWorld_def onCompleted_def
  by (simp add: isHttpUrl_example shouldArchive_archived Let_def setTimeout_def logCall_def)
     (simp add: archivedWorld_eq emptyWorld_def getSettings_def normalize_def emptyStored_def
        numeral_2_eq_2)

lemma timers_revisit: "timers revisitWorld 2 = Some \<lparr>task_tabId = 1, task_url = ''https://example.com/'', task_delay = 2000\<rparr>"
  by (simp add: revisitWorld_eq)

lemma answersAgain_sel:
  "tabs_get answersAgain = Inr \<lparr>tab_url = Some ''https://example.com/''\<rparr>"
  "putVisit_ok answersAgain" "purge_ok answersAgain" "executeScript_ok answersAgain"
  "sendMessage answersAgain = Inr (Some \<lparr>ok = True, r_title = Some ''A'', r_html = Some pageHtml, r_error = None\<rparr>)"
  "getVersions_ok answersAgain" "putPageVersion_ok answersAgain"
  "sha256Hex answersAgain = sha256Hex answersOk"
  by (simp_all add: answersAgain_def answersOk_def sha256Hex_def fun_eq_iff)

lemma shouldArchive_revisit: "shouldArchiveUrl browser ''https://example.com/'' revisitWorld"
  using shouldArchive_archived
  by (simp add: shouldArchiveUrl_def getSettings_def revisitWorld_eq)

lemma pages_revisit_fire: "pages (fireTimer browser answersAgain 2 revisitWorld) = pages revisitWorld"
proof -
  let ?w0 = "revisitWorld\<lparr>timers := (timers revisitWorld)(2 := None)\<rparr>"
  let ?lv = "snd (logVisit answersAgain 1 ''https://example.com/'' ''https://example.com/'' ?w0)"
  have ok: "shouldArchiveUrl browser ''https://example.com/'' ?lv"
    using shouldArchive_revisit by (simp add: shouldArchiveUrl_cong[of ?lv revisitWorld] logVisit_frame)
  have "fst (logVisit answersAgain 1 ''https://example.com/'' ''https://example.com/'' ?w0) = None"
    by (simp add: logVisit_result answersAgain_sel)
  then have "snd (archiveTimerTry browser answersAgain 1 ''https://example.com/'' ?w0) =
     snd (archiveIfChanged browser answersAgain 1 ''https://example.com/'' ?lv)"
    by (auto simp: archiveTimerTry_match[OF answersAgain_sel(1)] toUrlKey_def split: prod.splits)
  moreover have "pages ?lv = [version1]" "pages revisitWorld = [version1]"
    by (simp_all add: logVisit_frame revisitWorld_eq archivedWorld_eq)
  ultimately show ?thesis
    using archiveIfChanged_captured(2)[OF ok answersAgain_sel(4,5) _ answersAgain_sel(6), of 1]
    by (simp add: fireTimer_eq[OF timers_revisit] clearTabState_fields answersAgain_sel
        getVersionsByUrlKey_def toUrlKey_def version1_def newVersion_def snapshotOf_def)
qed

lemma timers_disabled: "timers disabledWorld 1 = Some \<lparr>task_tabId = 1, task_url = ''https://example.com/'', task_delay = 2000\<rparr>"
  by (simp add: disabledWorld_def setSettings_def pendingWorld_eq)

lemma not_shouldArchive_disabled: "\<not> shouldArchiveUrl browser ''https://example.com/'' disabledWorld"
  by (simp add: shouldArchiveUrl_def shouldArchive_def getSettings_def disabledWorld_def setSettings_def
      normalize_def toStored_def)

section \<open>The dwell timer fires\<close>

text \<open>
  Claim C4. When the pending timer \<open>tid\<close> fires, the tab of its task has no
  \<open>NavState\<close> and no errored URL afterwards, whatever the calls answer, and the timer
  is no longer pending. When \<^verbatim>\<open>chrome.tabs.get\<close> rejects, or the tab has no URL or
  another URL than the task, both stores are unchanged and no call is made except the
  \<^verbatim>\<open>clearTimeout\<close> of the cleanup.
\<close>

theorem fireTimer_abort_and_cleanup:
  assumes "timers w tid = Some task"
  shows "navByTab (fireTimer P env tid w) (task_tabId task) = None
       \<and> erroredTabUrl (fireTimer P env tid w) (task_tabId task) = None
       \<and> timers (fireTimer P env tid w) tid = None
       \<and> ((\<forall>tab. tabs_get env = Inr tab \<longrightarrow> tab_url tab \<noteq> Some (task_url task)) \<longrightarrow>
             pages (fireTimer P env tid w) = pages w
           \<and> visits (fireTimer P env tid w) = visits w
           \<and> set (newCalls w (fireTimer P env tid w)) \<subseteq> range CallClearTimeout)"
proof -
  let ?w0 = "w\<lparr>timers := (timers w)(tid := None)\<rparr>"
  let ?w1 = "snd (archiveTimerTry P env (task_tabId task) (task_url task) ?w0)"
  have fire: "fireTimer P env tid w = clearTabState (task_tabId task) ?w1"
    using assms by (simp add: fireTimer_def archiveTimer_def)
  have cleared: "navByTab (fireTimer P env tid w) (task_tabId task) = None"
    "erroredTabUrl (fireTimer P env tid w) (task_tabId task) = None"
    by (simp_all add: fire clearTabState_fields)
  have gone: "timers (fireTimer P env tid w) tid = None"
    by (simp add: fire clearTabState_timers archiveTimerTry_frame split: option.splits)
  have abort: "pages (fireTimer P env tid w) = pages w
           \<and> visits (fireTimer P env tid w) = visits w
           \<and> set (newCalls w (fireTimer P env tid w)) \<subseteq> range CallClearTimeout"
    if "\<forall>tab. tabs_get env = Inr tab \<longrightarrow> tab_url tab \<noteq> Some (task_url task)"
  proof -
    have "?w1 = ?w0" using that by (rule archiveTimerTry_abort)
    then show ?thesis
      by (auto simp: fire clearTabState_fields clearTabState_calls newCalls_def split: option.splits)
  qed
  show ?thesis using cleared gone abort by blast
qed

text \<open>
  The theorem at the timer of \<open>pendingWorld\<close> when the tab has been closed: the
  \<open>NavState\<close> of the tab is cleared and nothing is stored.
\<close>

theorem fireTimer_abort_and_cleanup_witness:
  "timers pendingWorld 1 = Some \<lparr>task_tabId = 1, task_url = ''https://example.com/'', task_delay = 2000\<rparr>
   \<and> tabs_get answersTabGone = Inl ''No tab with id: 1.''
   \<and> navByTab pendingWorld 1 \<noteq> None
   \<and> navByTab (fireTimer browser answersTabGone 1 pendingWorld) 1 = None
   \<and> visits (fireTimer browser answersTabGone 1 pendingWorld) = []
   \<and> pages (fireTimer browser answersTabGone 1 pendingWorld) = []"
  using fireTimer_abort_and_cleanup[where w = pendingWorld and tid = 1 and env = answersTabGone and P = browser, OF timers_pending]
    timers_pending
  by (simp add: answersTabGone_def pendingWorld_eq emptyWorld_def)

text \<open>
  Claim C5. In the run of a timer: if the content script is injected, then the visit
  was put and the purge was run before, in that order, and both transactions had
  completed; if the page store has changed, then both had completed and the capture
  was attempted after them; and whenever the tab is still on the URL and both
  transactions complete, the visit store is the old one with the new visit put and
  the purge applied, whatever happens to the capture afterwards.
\<close>

theorem fireTimer_visit_before_capture:
  assumes "timers w tid = Some task"
  shows "(CallExecuteScript (task_tabId task) \<in> set (newCalls w (fireTimer P env tid w)) \<longrightarrow>
            putVisit_ok env \<and> purge_ok env
          \<and> (\<exists>rest. newCalls w (fireTimer P env tid w) =
                CallPutVisit (newVisit env (task_tabId task) (task_url task) (toUrlKey (task_url task)))
                # CallPurgeVisits (purge_now env - DAYS_30_MS)
                # CallExecuteScript (task_tabId task) # rest))
       \<and> (pages (fireTimer P env tid w) \<noteq> pages w \<longrightarrow>
            putVisit_ok env \<and> purge_ok env
          \<and> CallExecuteScript (task_tabId task) \<in> set (newCalls w (fireTimer P env tid w)))
       \<and> ((\<exists>t. tabs_get env = Inr t \<and> tab_url t = Some (task_url task)) \<and> task_url task \<noteq> []
            \<and> putVisit_ok env \<and> purge_ok env \<longrightarrow>
            visits (fireTimer P env tid w) =
              purgeVisitsOlderThan (purge_now env - DAYS_30_MS)
                (putVisit (newVisit env (task_tabId task) (task_url task) (toUrlKey (task_url task))) (visits w)))"
proof -
  let ?tab = "task_tabId task" and ?url = "task_url task"
  let ?w0 = "w\<lparr>timers := (timers w)(tid := None)\<rparr>"
  let ?lv = "snd (logVisit env ?tab ?url (toUrlKey ?url) ?w0)"
  let ?w1 = "snd (archiveTimerTry P env ?tab ?url ?w0)"
  note fire = fireTimer_eq[OF assms, of P env]
  obtain cl where cl: "calls (fireTimer P env tid w) = calls ?w1 @ cl" "set cl \<subseteq> range CallClearTimeout"
    by (auto simp: fire clearTabState_calls split: option.splits)
  obtain rest where rest: "calls (snd (archiveIfChanged P env ?tab ?url ?lv)) =
     calls ?lv @ (if shouldArchiveUrl P ?url ?lv then CallExecuteScript ?tab # rest else [])"
    using archiveIfChanged_calls by blast
  show ?thesis
  proof (cases rule: archiveTimerTry_cases[where P=P and env=env and tab="?tab" and url="?url" and w="?w0"])
    case abort
    then have "newCalls w (fireTimer P env tid w) = cl" "pages (fireTimer P env tid w) = pages w"
      using cl by (auto simp: newCalls_def fire clearTabState_fields)
    then show ?thesis using cl(2) abort(1) by auto
  next
    case visit_failed
    then have "newCalls w (fireTimer P env tid w) =
        CallPutVisit (newVisit env ?tab ?url (toUrlKey ?url))
         # (if putVisit_ok env then [CallPurgeVisits (purge_now env - DAYS_30_MS)] else []) @ cl"
      and "pages (fireTimer P env tid w) = pages w"
      using cl by (auto simp: newCalls_def fire clearTabState_fields logVisit_result logVisit_frame)
    then show ?thesis using cl(2) visit_failed(1) by auto
  next
    case archive
    have v: "visits (fireTimer P env tid w) = purgeVisitsOlderThan (purge_now env - DAYS_30_MS)
                (putVisit (newVisit env ?tab ?url (toUrlKey ?url)) (visits w))"
      using archive by (simp add: fire clearTabState_fields archiveIfChanged_frame logVisit_result)
    have c: "newCalls w (fireTimer P env tid w) =
        CallPutVisit (newVisit env ?tab ?url (toUrlKey ?url)) # CallPurgeVisits (purge_now env - DAYS_30_MS)
         # (if shouldArchiveUrl P ?url ?lv then CallExecuteScript ?tab # rest else []) @ cl"
      using archive cl rest by (simp add: newCalls_def logVisit_result)
    have p: "shouldArchiveUrl P ?url ?lv" if "pages (fireTimer P env tid w) \<noteq> pages w"
      using that archive archiveIfChanged_pages[of P env ?tab ?url ?lv]
      by (simp add: fire clearTabState_fields logVisit_frame)
    show ?thesis using archive(1,2) v c p cl(2) by auto
  qed
qed

text \<open>
  The theorem at the second visit of the page with the same markup: the second visit is
  stored and the page store is unchanged.
\<close>

theorem fireTimer_visit_before_capture_witness:
  "timers revisitWorld 2 = Some \<lparr>task_tabId = 1, task_url = ''https://example.com/'', task_delay = 2000\<rparr>
   \<and> tabs_get answersAgain = Inr \<lparr>tab_url = Some ''https://example.com/''\<rparr>
   \<and> putVisit_ok answersAgain \<and> purge_ok answersAgain
   \<and> map visitId (visits revisitWorld) = [''visit-1'']
   \<and> map visitId (visits (fireTimer browser answersAgain 2 revisitWorld)) = [''visit-1'', ''visit-2'']
   \<and> pages (fireTimer browser answersAgain 2 revisitWorld) = pages revisitWorld"
  using fireTimer_visit_before_capture[where w = revisitWorld and tid = 2 and env = answersAgain and P = browser, OF timers_revisit]
    timers_revisit pages_revisit_fire
  by (simp add: answersAgain_sel)
     (simp add: revisitWorld_eq archivedWorld_eq visit1_def newVisit_def answersAgain_def answersOk_def
        putVisit_def putRecord_def deleteByKey_def purgeVisitsOlderThan_def indexRange_by_visitAt_def
        DAYS_30_MS_def toUrlKey_def)

text \<open>
  Claim C10. The timer fires for a tab that is still on the URL, in a world whose
  settings make the URL ineligible. Then the page store is unchanged; the calls of the
  run are the put of the visit, the purge if the put completed, and the
  \<^verbatim>\<open>clearTimeout\<close> of the cleanup, so neither the script injection nor a message to the
  tab nor a read or write of the page store is attempted; and if the put completes the
  visit is in the store (purged if the purge completes as well).
\<close>

theorem fireTimer_ineligible_visit_only:
  assumes "timers w tid = Some task" "tabs_get env = Inr t" "tab_url t = Some (task_url task)"
    "task_url task \<noteq> []" "\<not> shouldArchiveUrl P (task_url task) w"
  shows "pages (fireTimer P env tid w) = pages w
       \<and> (\<exists>cl. set cl \<subseteq> range CallClearTimeout
            \<and> newCalls w (fireTimer P env tid w) =
                CallPutVisit (newVisit env (task_tabId task) (task_url task) (toUrlKey (task_url task)))
                # (if putVisit_ok env then [CallPurgeVisits (purge_now env - DAYS_30_MS)] else []) @ cl)
       \<and> (putVisit_ok env \<longrightarrow>
            visits (fireTimer P env tid w) =
              (if purge_ok env
               then purgeVisitsOlderThan (purge_now env - DAYS_30_MS)
                      (putVisit (newVisit env (task_tabId task) (task_url task) (toUrlKey (task_url task))) (visits w))
               else putVisit (newVisit env (task_tabId task) (task_url task) (toUrlKey (task_url task))) (visits w)))"
proof -
  let ?tab = "task_tabId task" and ?url = "task_url task"
  let ?w0 = "w\<lparr>timers := (timers w)(tid := None)\<rparr>"
  let ?lv = "snd (logVisit env ?tab ?url (toUrlKey ?url) ?w0)"
  let ?w1 = "snd (archiveTimerTry P env ?tab ?url ?w0)"
  note fire = fireTimer_eq[OF assms(1), of P env]
  obtain cl where cl: "calls (fireTimer P env tid w) = calls ?w1 @ cl" "set cl \<subseteq> range CallClearTimeout"
    by (auto simp: fire clearTabState_calls split: option.splits)
  have "\<not> shouldArchiveUrl P ?url ?lv"
    using assms(5) by (simp add: shouldArchiveUrl_cong[of ?lv w] logVisit_frame)
  then have skip: "archiveIfChanged P env ?tab ?url ?lv = (None, ?lv)"
    by (rule archiveIfChanged_ineligible)
  have "?w1 = ?lv"
    using skip by (auto simp: archiveTimerTry_match[OF assms(2,3,4)] split: prod.splits option.splits)
  then have w1: "fireTimer P env tid w = clearTabState ?tab ?lv"
    by (simp add: fire)
  have "pages (fireTimer P env tid w) = pages w"
    by (simp add: w1 clearTabState_fields logVisit_frame)
  moreover have "newCalls w (fireTimer P env tid w) =
      CallPutVisit (newVisit env ?tab ?url (toUrlKey ?url))
       # (if putVisit_ok env then [CallPurgeVisits (purge_now env - DAYS_30_MS)] else []) @ cl"
    using cl \<open>?w1 = ?lv\<close> by (simp add: newCalls_def logVisit_result)
  moreover have "visits (fireTimer P env tid w) =
              (if purge_ok env
               then purgeVisitsOlderThan (purge_now env - DAYS_30_MS)
                      (putVisit (newVisit env ?tab ?url (toUrlKey ?url)) (visits w))
               else putVisit (newVisit env ?tab ?url (toUrlKey ?url)) (visits w))"
    if "putVisit_ok env"
    using that by (simp add: w1 clearTabState_fields logVisit_result)
  ultimately show ?thesis using cl(2) by blast
qed

text \<open>
  The theorem at the timer of \<open>pendingWorld\<close>, scheduled while the URL was eligible,
  after archiving has been switched off: the visit is stored, no page is, and the
  script is not injected.
\<close>

theorem fireTimer_ineligible_visit_only_witness:
  "shouldArchiveUrl browser ''https://example.com/'' pendingWorld
   \<and> timers disabledWorld 1 = Some \<lparr>task_tabId = 1, task_url = ''https://example.com/'', task_delay = 2000\<rparr>
   \<and> tabs_get answersOk = Inr \<lparr>tab_url = Some ''https://example.com/''\<rparr>
   \<and> \<not> shouldArchiveUrl browser ''https://example.com/'' disabledWorld
   \<and> pages (fireTimer browser answersOk 1 disabledWorld) = []
   \<and> map visitId (visits (fireTimer browser answersOk 1 disabledWorld)) = [''visit-1'']
   \<and> CallExecuteScript 1 \<notin> set (newCalls disabledWorld (fireTimer browser answersOk 1 disabledWorld))"
  using fireTimer_ineligible_visit_only[where w = disabledWorld and tid = 1 and env = answersOk and P = browser
      and task = "\<lparr>task_tabId = 1, task_url = ''https://example.com/'', task_delay = 2000\<rparr>"
      and t = "\<lparr>tab_url = Some ''https://example.com/''\<rparr>"]
    shouldArchive_pending timers_disabled not_shouldArchive_disabled
  by (simp add: answersOk_sel)
     (auto simp: disabledWorld_def setSettings_def pendingWorld_eq emptyWorld_def newVisit_def
        answersOk_def putVisit_def putRecord_def deleteByKey_def purgeVisitsOlderThan_def
        indexRange_by_visitAt_def DAYS_30_MS_def toUrlKey_def)

text \<open>
  Claim C2. The timer fires, the tab is still on the URL, the visit is logged, the URL
  is eligible, the capture succeeds and the versions of the URL key are read. The
  first element of \<^verbatim>\<open>getVersionsByUrlKey\<close>, if there is one, is a stored version of
  the key with the greatest \<open>capturedAt\<close>; the list is empty only if no version of
  the key is stored. If there is such a version and its hash is the computed hash,
  \<^verbatim>\<open>putPageVersion\<close> is not called and the page store is unchanged. Otherwise
  \<^verbatim>\<open>putPageVersion\<close> is called with the new version, and the page store is the old one
  with the new version put when that transaction completes.
\<close>

theorem fireTimer_stores_iff_hash_differs:
  assumes "timers w tid = Some task" "tabs_get env = Inr t" "tab_url t = Some (task_url task)"
    "task_url task \<noteq> []" "putVisit_ok env" "purge_ok env"
    "shouldArchiveUrl P (task_url task) w" "executeScript_ok env"
    "sendMessage env = Inr (Some res)" "ok res" "getVersions_ok env"
  defines "h \<equiv> sha256Hex env (snap_html (snapshotOf res))"
  defines "version \<equiv> newVersion env (task_url task) (toUrlKey (task_url task)) (snapshotOf res) h"
  defines "w' \<equiv> fireTimer P env tid w"
  shows "case getVersionsByUrlKey (toUrlKey (task_url task)) (pages w) of
           [] \<Rightarrow> (\<forall>v\<in>set (pages w). pv_urlKey v \<noteq> toUrlKey (task_url task))
                \<and> CallPutPageVersion version \<in> set (newCalls w w')
                \<and> pages w' = (if putPageVersion_ok env then putPageVersion version (pages w) else pages w)
         | latest # _ \<Rightarrow>
             latest \<in> set (pages w) \<and> pv_urlKey latest = toUrlKey (task_url task)
           \<and> (\<forall>v\<in>set (pages w). pv_urlKey v = toUrlKey (task_url task)
                 \<longrightarrow> capturedAt v \<le> capturedAt latest)
           \<and> (if hash latest = h
              then (\<forall>v. CallPutPageVersion v \<notin> set (newCalls w w')) \<and> pages w' = pages w
              else CallPutPageVersion version \<in> set (newCalls w w')
                 \<and> pages w' = (if putPageVersion_ok env then putPageVersion version (pages w) else pages w))"
proof -
  let ?tab = "task_tabId task" and ?url = "task_url task"
  let ?w0 = "w\<lparr>timers := (timers w)(tid := None)\<rparr>"
  let ?lv = "snd (logVisit env ?tab ?url (toUrlKey ?url) ?w0)"
  let ?w1 = "snd (archiveTimerTry P env ?tab ?url ?w0)"
  note fire = fireTimer_eq[OF assms(1), of P env]
  obtain cl where cl: "calls w' = calls ?w1 @ cl" "set cl \<subseteq> range CallClearTimeout"
    unfolding w'_def by (auto simp: fire clearTabState_calls split: option.splits)
  have pg: "pages w' = pages ?w1"
    unfolding w'_def by (simp add: fire clearTabState_fields)
  have ok: "shouldArchiveUrl P ?url ?lv"
    using assms(7) by (simp add: shouldArchiveUrl_cong[of ?lv w] logVisit_frame)
  have "fst (logVisit env ?tab ?url (toUrlKey ?url) ?w0) = None"
    using assms(5,6) by (simp add: logVisit_result)
  then have w1: "?w1 = snd (archiveIfChanged P env ?tab ?url ?lv)"
    by (auto simp: archiveTimerTry_match[OF assms(2,3,4)] split: prod.splits)
  note arch = archiveIfChanged_captured[OF ok assms(8,9,10,11), of ?tab, folded h_def, folded version_def]
  have lvp: "pages ?lv = pages w" by (simp add: logVisit_frame)
  have lvc: "calls ?lv = calls w @ [CallPutVisit (newVisit env ?tab ?url (toUrlKey ?url)),
       CallPurgeVisits (purge_now env - DAYS_30_MS)]"
    using assms(5) by (simp add: logVisit_result)
  let ?dup = "case getVersionsByUrlKey (toUrlKey ?url) (pages w) of
                     [] \<Rightarrow> False | latest # _ \<Rightarrow> hash latest = h"
  have nc: "newCalls w w' = [CallPutVisit (newVisit env ?tab ?url (toUrlKey ?url)),
       CallPurgeVisits (purge_now env - DAYS_30_MS), CallExecuteScript ?tab, CallSendMessage ?tab,
       CallGetVersions (toUrlKey ?url)] @ (if ?dup then [] else [CallPutPageVersion version]) @ cl"
    by (rule newCalls_append) (simp add: cl(1) w1 arch(1) lvp lvc)
  have pw: "pages w' = (if ?dup \<or> \<not> putPageVersion_ok env then pages w
            else putPageVersion version (pages w))"
    by (simp add: pg w1 arch(2) lvp)
  show ?thesis
  proof (cases "getVersionsByUrlKey (toUrlKey ?url) (pages w)")
    case Nil
    then show ?thesis using getVersionsByUrlKey_Nil[OF Nil] nc pw by simp
  next
    case (Cons latest rest)
    note props = getVersionsByUrlKey_Cons[OF Cons]
    show ?thesis
    proof (cases "hash latest = h")
      case True
      then show ?thesis using props cl(2) nc pw by (auto simp: Cons)
    next
      case False
      then show ?thesis using props nc pw by (simp add: Cons)
    qed
  qed
qed

text \<open>
  The theorem at the first visit of the page: no version is stored, and the run stores
  the version with the digest of the markup.
\<close>

theorem fireTimer_stores_iff_hash_differs_witness:
  "timers pendingWorld 1 = Some \<lparr>task_tabId = 1, task_url = ''https://example.com/'', task_delay = 2000\<rparr>
   \<and> shouldArchiveUrl browser ''https://example.com/'' pendingWorld
   \<and> getVersionsByUrlKey ''https://example.com/'' (pages pendingWorld) = []
   \<and> pages (fireTimer browser answersOk 1 pendingWorld) =
       [newVersion answersOk ''https://example.com/'' ''https://example.com/''
          \<lparr>snap_title = ''A'', snap_html = pageHtml\<rparr> (sha256Hex answersOk pageHtml)]"
  using fireTimer_stores_iff_hash_differs[where w = pendingWorld and tid = 1 and env = answersOk and P = browser,
      OF timers_pending answersOk_sel(1)]
    shouldArchive_pending timers_pending
  by (simp add: answersOk_sel toUrlKey_def snapshotOf_def getVersionsByUrlKey_def pendingWorld_eq emptyWorld_def
      putPageVersion_def putRecord_def deleteByKey_def)

section \<open>Toggling a host\<close>

lemma Set_new_aux:
  "distinct acc \<Longrightarrow> distinct (foldl (\<lambda>s x. Set_add x s) acc xs)
     \<and> set (foldl (\<lambda>s x. Set_add x s) acc xs) = set acc \<union> set xs"
  by (induction xs arbitrary: acc) (auto simp: Set_add_def)

lemma Set_new_props: "distinct (Set_new xs)" "set (Set_new xs) = set xs"
  using Set_new_aux[of "[]" xs] by (simp_all add: Set_new_def)

lemma getSettings_setSettings: "getSettings (setSettings s w) = s"
  by (simp add: getSettings_def setSettings_def normalize_def toStored_def)

lemma toggle_fst:
  "fst (onMessage_PW_TOGGLE_HOST P m w) = getSettings (snd (onMessage_PW_TOGGLE_HOST P m w))"
  by (simp add: onMessage_PW_TOGGLE_HOST_def Let_def getSettings_setSettings)

lemma toggle_hosts:
  "disabledHosts (getSettings (snd (onMessage_PW_TOGGLE_HOST P (Some url) w))) =
     sort (let s0 = Set_new (disabledHosts (getSettings w)); h = hostOf P url in
           if h \<noteq> [] then (if h \<in> set s0 then Set_delete h s0 else Set_add h s0) else s0)"
  by (simp add: onMessage_PW_TOGGLE_HOST_def Let_def getSettings_setSettings)

lemma toggle_other:
  "disabledUrlPatterns (getSettings (snd (onMessage_PW_TOGGLE_HOST P m w))) = disabledUrlPatterns (getSettings w)"
  "enabled (getSettings (snd (onMessage_PW_TOGGLE_HOST P m w))) = enabled (getSettings w)"
  "minStayMs (getSettings (snd (onMessage_PW_TOGGLE_HOST P m w))) = minStayMs (getSettings w)"
  by (simp_all add: onMessage_PW_TOGGLE_HOST_def Let_def getSettings_setSettings)

lemma toggle_sorted_distinct:
  "sorted (disabledHosts (getSettings (snd (onMessage_PW_TOGGLE_HOST P (Some url) w))))"
  "distinct (disabledHosts (getSettings (snd (onMessage_PW_TOGGLE_HOST P (Some url) w))))"
  using Set_new_props(1)[of "disabledHosts (getSettings w)"]
  by (auto simp: toggle_hosts Let_def Set_delete_def Set_add_def)

lemma toggle_set:
  assumes "hostOf P url \<noteq> []"
  shows "set (disabledHosts (getSettings (snd (onMessage_PW_TOGGLE_HOST P (Some url) w)))) =
     (if hostOf P url \<in> set (disabledHosts (getSettings w))
      then set (disabledHosts (getSettings w)) - {hostOf P url}
      else insert (hostOf P url) (set (disabledHosts (getSettings w))))"
  using assms Set_new_props(2)[of "disabledHosts (getSettings w)"]
  by (auto simp: toggle_hosts Let_def Set_delete_def Set_add_def)

text \<open>
  Claim C9. The settings hold a sorted list of disabled hosts without duplicates
  (strings are ordered by their code units, as \<^verbatim>\<open>arr.sort()\<close> orders them), and the
  URL of the message has a host. After the command \<^verbatim>\<open>PW_TOGGLE_HOST\<close> is handled twice
  with that URL, the list of disabled hosts is the original one, and so are the whole
  settings of the second response; after the first and after the second handling the
  list is sorted and without duplicates; the list of URL patterns is never changed, so
  it remains sorted and without duplicates if it was; and the first handling adds the
  host if it was absent and removes it if it was present.
\<close>

theorem toggle_host_twice:
  assumes "sorted (disabledHosts (getSettings w))" "distinct (disabledHosts (getSettings w))"
    "hostOf P url \<noteq> []"
  defines "w1 \<equiv> snd (onMessage_PW_TOGGLE_HOST P (Some url) w)"
  defines "w2 \<equiv> snd (onMessage_PW_TOGGLE_HOST P (Some url) w1)"
  shows "disabledHosts (getSettings w2) = disabledHosts (getSettings w)
       \<and> fst (onMessage_PW_TOGGLE_HOST P (Some url) w1) = getSettings w
       \<and> sorted (disabledHosts (getSettings w1)) \<and> distinct (disabledHosts (getSettings w1))
       \<and> sorted (disabledHosts (getSettings w2)) \<and> distinct (disabledHosts (getSettings w2))
       \<and> disabledUrlPatterns (getSettings w1) = disabledUrlPatterns (getSettings w)
       \<and> disabledUrlPatterns (getSettings w2) = disabledUrlPatterns (getSettings w)
       \<and> (sorted (disabledUrlPatterns (getSettings w)) \<and> distinct (disabledUrlPatterns (getSettings w))
            \<longrightarrow> sorted (disabledUrlPatterns (getSettings w1)) \<and> distinct (disabledUrlPatterns (getSettings w1))
              \<and> sorted (disabledUrlPatterns (getSettings w2)) \<and> distinct (disabledUrlPatterns (getSettings w2)))
       \<and> (hostOf P url \<in> set (disabledHosts (getSettings w1))
            \<longleftrightarrow> hostOf P url \<notin> set (disabledHosts (getSettings w)))"
proof -
  have sd1: "sorted (disabledHosts (getSettings w1))" "distinct (disabledHosts (getSettings w1))"
    unfolding w1_def by (rule toggle_sorted_distinct)+
  have sd2: "sorted (disabledHosts (getSettings w2))" "distinct (disabledHosts (getSettings w2))"
    unfolding w2_def by (rule toggle_sorted_distinct)+
  have s1: "set (disabledHosts (getSettings w1)) =
     (if hostOf P url \<in> set (disabledHosts (getSettings w))
      then set (disabledHosts (getSettings w)) - {hostOf P url}
      else insert (hostOf P url) (set (disabledHosts (getSettings w))))"
    unfolding w1_def by (rule toggle_set[OF assms(3)])
  have s2: "set (disabledHosts (getSettings w2)) =
     (if hostOf P url \<in> set (disabledHosts (getSettings w1))
      then set (disabledHosts (getSettings w1)) - {hostOf P url}
      else insert (hostOf P url) (set (disabledHosts (getSettings w1))))"
    unfolding w2_def by (rule toggle_set[OF assms(3)])
  have "set (disabledHosts (getSettings w2)) = set (disabledHosts (getSettings w))"
    unfolding s2 s1 by auto
  then have hosts: "disabledHosts (getSettings w2) = disabledHosts (getSettings w)"
    using sd2 assms(1,2) by (intro sorted_distinct_set_unique) auto
  have pats: "disabledUrlPatterns (getSettings w1) = disabledUrlPatterns (getSettings w)"
    "disabledUrlPatterns (getSettings w2) = disabledUrlPatterns (getSettings w)"
    unfolding w2_def w1_def by (simp_all add: toggle_other)
  have "getSettings w2 = getSettings w"
    using hosts pats(2) toggle_other(2,3)[of P "Some url" w1] toggle_other(2,3)[of P "Some url" w]
    unfolding w2_def w1_def by (intro Settings.equality) auto
  then have resp: "fst (onMessage_PW_TOGGLE_HOST P (Some url) w1) = getSettings w"
    unfolding w2_def by (simp add: toggle_fst)
  show ?thesis using hosts resp sd1 sd2 pats s1 by auto
qed

text \<open>
  The theorem at the host \<^verbatim>\<open>example.com\<close> and two disabled hosts: the first toggle
  inserts the host between the two, the second gives the original list back.
\<close>

theorem toggle_host_twice_witness:
  "sorted (disabledHosts (getSettings hostsWorld)) \<and> distinct (disabledHosts (getSettings hostsWorld))
   \<and> hostOf browser ''https://example.com/'' \<noteq> []
   \<and> disabledHosts (getSettings (snd (onMessage_PW_TOGGLE_HOST browser (Some ''https://example.com/'') hostsWorld)))
       = [''a.example'', ''example.com'', ''mail.google.com'']
   \<and> disabledHosts (getSettings (snd (onMessage_PW_TOGGLE_HOST browser (Some ''https://example.com/'')
        (snd (onMessage_PW_TOGGLE_HOST browser (Some ''https://example.com/'') hostsWorld)))))
       = [''a.example'', ''mail.google.com'']"
  using toggle_host_twice[of hostsWorld browser "''https://example.com/''"]
  by (simp add: hostsWorld_def getSettings_setSettings toggle_hosts hostOf_example Set_new_def Set_add_def Set_delete_def)

end
